theory Spec2Isabelle
  imports Complex_Main "HOL-Library.Word"
begin

section \<open>JavaScript values used by the API\<close>

text \<open>
  A JavaScript string is a sequence of 16-bit code units; \<open>substring\<close> and \<open>length\<close>
  count code units. \<open>lit\<close> writes an ASCII literal as such a sequence.
\<close>

type_synonym jschar = "16 word"
type_synonym jsstring = "jschar list"

definition lit :: "string \<Rightarrow> jsstring" where
  "lit s = map (\<lambda>c. of_nat (of_char c)) s"

text \<open>
  The Numbers the validators return and the service computes with: those with an integer
  value, and the three special values. \<open>Num n\<close> is the Number with the integer value
  \<open>n\<close>. A double holds every integer up to \<open>2 ^ 53\<close> in magnitude, and beyond that the
  integers of at most 53 significant bits (below \<open>2 ^ 1024\<close>); the arithmetic of the
  service rounds to these. There is one zero: \<open>Num 0\<close> is \<open>+0\<close> and \<open>-0\<close>, which the code
  below never tells apart.
\<close>

datatype jsnum = NaN | PInf | NInf | Num int

text \<open>
  The values that reach the validators: \<open>undefined\<close>, \<open>null\<close>, booleans, numbers and
  strings. Objects and arrays are not among them (a query-string or path property is
  none of the two). A number is a \<open>JNum\<close>, or, to have the Numbers that are not
  integers as well, a \<open>JDecimal\<close>: \<open>JDecimal neg s n\<close> is the finite Number that
  Number::toString prints with the digits of \<open>s\<close> and the decimal exponent \<open>n\<close> (a minus
  sign before them when \<open>neg\<close>); that text reads \<open>s \<times> 10 ^ (n - k)\<close> for the \<open>k\<close> digits of
  \<open>s\<close>. So \<open>100.5\<close> is \<open>JDecimal False 1005 3\<close> and \<open>-0.5\<close> is \<open>JDecimal True 5 0\<close>.
\<close>

datatype jsval =
  JUndefined | JNull | JBool bool | JNum jsnum | JDecimal bool nat int | JStr jsstring

text \<open>ToBoolean: what \<open>!x\<close>, \<open>x || y\<close> and \<open>if (x)\<close> test.\<close>

fun truthy_num :: "jsnum \<Rightarrow> bool" where
  "truthy_num NaN = False"
| "truthy_num (Num n) = (n \<noteq> 0)"
| "truthy_num PInf = True"
| "truthy_num NInf = True"

fun truthy :: "jsval \<Rightarrow> bool" where
  "truthy JUndefined = False"
| "truthy JNull = False"
| "truthy (JBool b) = b"
| "truthy (JNum x) = truthy_num x"
| "truthy (JDecimal neg s n) = (s \<noteq> 0)"
| "truthy (JStr s) = (s \<noteq> [])"

text \<open>\<open>a || b\<close> on numbers.\<close>

definition js_or :: "jsnum \<Rightarrow> jsnum \<Rightarrow> jsnum" where
  "js_or a b = (if truthy_num a then a else b)"

fun Math_max :: "jsnum \<Rightarrow> jsnum \<Rightarrow> jsnum" where
  "Math_max NaN _ = NaN"
| "Math_max _ NaN = NaN"
| "Math_max PInf _ = PInf"
| "Math_max _ PInf = PInf"
| "Math_max NInf b = b"
| "Math_max a NInf = a"
| "Math_max (Num a) (Num b) = Num (max a b)"

fun Math_min :: "jsnum \<Rightarrow> jsnum \<Rightarrow> jsnum" where
  "Math_min NaN _ = NaN"
| "Math_min _ NaN = NaN"
| "Math_min NInf _ = NInf"
| "Math_min _ NInf = NInf"
| "Math_min PInf b = b"
| "Math_min a PInf = a"
| "Math_min (Num a) (Num b) = Num (min a b)"

subsection \<open>Rounding to a double\<close>

text \<open>The number of bits of a natural number.\<close>

fun bit_length :: "nat \<Rightarrow> nat" where
  "bit_length n = (if n = 0 then 0 else Suc (bit_length (n div 2)))"

declare bit_length.simps [simp del]

text \<open>The quotient \<open>num / den\<close> rounded to the nearest integer, a tie to the even one.\<close>

definition divide_round :: "nat \<Rightarrow> nat \<Rightarrow> nat" where
  "divide_round num den =
     (let f = num div den; r = num mod den
      in if 2 * r < den then f else if den < 2 * r then f + 1
         else if even f then f else f + 1)"

text \<open>
  The integer value of the double nearest to a natural number: its 53 leading bits,
  rounded to nearest, a tie to even.
\<close>

definition round53 :: "nat \<Rightarrow> nat" where
  "round53 n =
     (let l = bit_length n
      in if l \<le> 53 then n else divide_round n (2 ^ (l - 53)) * 2 ^ (l - 53))"

text \<open>
  The Number for the exact integer result of an operation on doubles: the nearest
  double, which is an infinity from \<open>2 ^ 1024 - 2 ^ 970\<close> on (half way between the
  largest double and \<open>2 ^ 1024\<close>).
\<close>

definition rounded :: "int \<Rightarrow> jsnum" where
  "rounded n =
     (if 2 ^ 1024 - 2 ^ 970 \<le> \<bar>n\<bar> then (if 0 < n then PInf else NInf)
      else Num (sgn n * int (round53 (nat \<bar>n\<bar>))))"

subsection \<open>White space and \<open>trim\<close>\<close>

text \<open>
  The code units that \<open>String.prototype.trim\<close> and \<open>parseInt\<close> skip: WhiteSpace
  (TAB, VT, FF, SP, NBSP, ZWNBSP and the Unicode space separators) and LineTerminator
  (LF, CR, LS, PS).
\<close>

definition isWhiteSpace :: "jschar \<Rightarrow> bool" where
  "isWhiteSpace c \<longleftrightarrow>
     c \<in> {0x0009, 0x000A, 0x000B, 0x000C, 0x000D, 0x0020, 0x00A0, 0x1680,
          0x2028, 0x2029, 0x202F, 0x205F, 0x3000, 0xFEFF}
     \<or> (0x2000 \<le> c \<and> c \<le> 0x200A)"

definition trimStart :: "jsstring \<Rightarrow> jsstring" where
  "trimStart s = dropWhile isWhiteSpace s"

definition trimEnd :: "jsstring \<Rightarrow> jsstring" where
  "trimEnd s = rev (dropWhile isWhiteSpace (rev s))"

definition trim :: "jsstring \<Rightarrow> jsstring" where
  "trim s = trimEnd (trimStart s)"

subsection \<open>\<open>ToString\<close> of a value\<close>

fun digits10 :: "nat \<Rightarrow> nat list" where
  "digits10 n = (if n < 10 then [n] else digits10 (n div 10) @ [n mod 10])"

declare digits10.simps [simp del]

definition digit_char :: "nat \<Rightarrow> jschar" where
  "digit_char d = of_nat (48 + d)"

definition decimal :: "nat \<Rightarrow> jsstring" where
  "decimal n = map digit_char (digits10 n)"

text \<open>
  From \<open>10 ^ 21\<close> on, Number::toString prints the decimal number of the fewest
  significant digits that reads back as the same double, and among several of them the
  one nearest to the double (the even one on a tie). \<open>candidate v len k\<close> is that number
  for \<open>k\<close> significant digits, if there is one: it is the multiple of
  \<open>10 ^ (len - k)\<close> just below \<open>v\<close> or the one just above. \<open>shortest v\<close> tries
  \<open>k = 1, 2, \<dots>\<close> up to the number of digits of \<open>v\<close>, where \<open>v\<close> itself is left.
\<close>

definition reads_as :: "nat \<Rightarrow> nat \<Rightarrow> bool" where
  "reads_as d v \<longleftrightarrow> round53 d = round53 v"

definition candidate :: "nat \<Rightarrow> nat \<Rightarrow> nat \<Rightarrow> nat option" where
  "candidate v len k =
     (let p = 10 ^ (len - k); lo = v div p; dl = lo * p; dh = (lo + 1) * p
      in if reads_as dl v
            \<and> (v - dl < dh - v \<or> \<not> reads_as dh v \<or> (v - dl = dh - v \<and> even lo))
         then Some dl
         else if reads_as dh v then Some dh else None)"

function shortest_from :: "nat \<Rightarrow> nat \<Rightarrow> nat \<Rightarrow> nat" where
  "shortest_from v len k =
     (if len \<le> k then v
      else case candidate v len k of
             Some d \<Rightarrow> d
           | None \<Rightarrow> shortest_from v len (Suc k))"
  by pat_completeness auto

termination
  by (relation "measure (\<lambda>(v, len, k). len - k)") auto

declare shortest_from.simps [simp del]

definition shortest :: "nat \<Rightarrow> nat" where
  "shortest v = shortest_from v (length (digits10 v)) 1"

text \<open>
  Exponent notation, \<open>d.ddde+k\<close>, of a positive integer: its digits without the
  trailing zeros, and the exponent.
\<close>

definition exponential :: "nat \<Rightarrow> jsstring" where
  "exponential n =
     (let ds = digits10 n;
          s = rev (dropWhile (\<lambda>d. d = 0) (rev ds));
          e = length ds - 1
      in (if length s = 1 then map digit_char s
          else digit_char (hd s) # 0x2E # map digit_char (tl s))
         @ lit ''e+'' @ decimal e)"

text \<open>
  Number::toString for a positive integer value: up to 21 digits are printed in full,
  and from \<open>10 ^ 21\<close> on the shortest decimal number is printed in exponent notation. (For
  a value below \<open>10 ^ 21\<close> that has more than 53 significant bits the engine prints the
  shortest decimal number as well, followed by zeros; its digits are not those of the
  value, but they read back as the same double, which is all \<open>parseInt\<close> takes from
  them.)
\<close>

definition NumberToString_pos :: "nat \<Rightarrow> jsstring" where
  "NumberToString_pos n = (if n < 10 ^ 21 then decimal n else exponential (shortest n))"

fun NumberToString :: "jsnum \<Rightarrow> jsstring" where
  "NumberToString NaN = lit ''NaN''"
| "NumberToString PInf = lit ''Infinity''"
| "NumberToString NInf = lit ''-Infinity''"
| "NumberToString (Num n) =
     (if n < 0 then 0x2D # NumberToString_pos (nat (- n)) else NumberToString_pos (nat n))"

text \<open>
  Number::toString from the digits \<open>s\<close> and the exponent \<open>n\<close>, with \<open>k\<close> the number of
  digits: the digits and \<open>n - k\<close> zeros when \<open>k \<le> n \<le> 21\<close>; a point after the first \<open>n\<close>
  digits when \<open>0 < n \<le> 21\<close>; \<open>0.\<close>, \<open>-n\<close> zeros and the digits when \<open>-6 < n \<le> 0\<close>; and
  exponent notation otherwise.
\<close>

definition DecimalToString :: "nat \<Rightarrow> int \<Rightarrow> jsstring" where
  "DecimalToString s n =
     (let ds = digits10 s; k = int (length ds)
      in if k \<le> n \<and> n \<le> 21 then map digit_char ds @ replicate (nat (n - k)) 0x30
         else if 0 < n \<and> n \<le> 21
           then map digit_char (take (nat n) ds) @ 0x2E # map digit_char (drop (nat n) ds)
         else if - 6 < n \<and> n \<le> 0
           then 0x30 # 0x2E # replicate (nat (- n)) 0x30 @ map digit_char ds
         else (if k = 1 then map digit_char ds
               else digit_char (hd ds) # 0x2E # map digit_char (tl ds))
              @ 0x65 # (if 0 \<le> n - 1 then 0x2B else 0x2D) # decimal (nat \<bar>n - 1\<bar>))"


fun ToString :: "jsval \<Rightarrow> jsstring" where
  "ToString JUndefined = lit ''undefined''"
| "ToString JNull = lit ''null''"
| "ToString (JBool b) = (if b then lit ''true'' else lit ''false'')"
| "ToString (JNum x) = NumberToString x"
| "ToString (JDecimal neg s n) =
     (if neg then 0x2D # DecimalToString s n else DecimalToString s n)"
| "ToString (JStr s) = s"

subsection \<open>\<open>parseInt\<close> with no radix argument\<close>

text \<open>The value of a code unit as a digit: \<open>0-9\<close>, \<open>a-z\<close>, \<open>A-Z\<close>.\<close>

definition digit_value :: "jschar \<Rightarrow> nat option" where
  "digit_value c =
     (if 0x30 \<le> c \<and> c \<le> 0x39 then Some (unat c - 48)
      else if 0x61 \<le> c \<and> c \<le> 0x7A then Some (unat c - 87)
      else if 0x41 \<le> c \<and> c \<le> 0x5A then Some (unat c - 55)
      else None)"

definition is_radix_digit :: "nat \<Rightarrow> jschar \<Rightarrow> bool" where
  "is_radix_digit R c = (case digit_value c of None \<Rightarrow> False | Some d \<Rightarrow> d < R)"

definition radix_value :: "nat \<Rightarrow> jsstring \<Rightarrow> nat" where
  "radix_value R z = foldl (\<lambda>acc c. acc * R + the (digit_value c)) 0 z"

text \<open>
  The Number for the integer that \<open>parseInt\<close> has read: an infinity when the integer
  rounds to \<open>2 ^ 1024\<close> or beyond, and else the integer as it was read. (That is the double
  itself whenever a double holds the integer, as it does every integer below \<open>2 ^ 53\<close>;
  for a longer run of digits the engine returns the nearest double.)
\<close>

definition read_number :: "int \<Rightarrow> jsnum" where
  "read_number n =
     (if 2 ^ 1024 - 2 ^ 970 \<le> \<bar>n\<bar> then (if 0 < n then PInf else NInf) else Num n)"

text \<open>
  The steps of \<open>parseInt(string)\<close>: skip leading white space, read a sign, switch to
  radix 16 after \<open>0x\<close> or \<open>0X\<close>, read the longest run of digits of the radix; no digit
  gives \<open>NaN\<close>.
\<close>

definition hex_prefix :: "jsstring \<Rightarrow> bool" where
  "hex_prefix S \<longleftrightarrow> 2 \<le> length S \<and> S ! 0 = 0x30 \<and> (S ! 1 = 0x78 \<or> S ! 1 = 0x58)"

definition parseInt_string :: "jsstring \<Rightarrow> jsnum" where
  "parseInt_string inputString =
     (let S = trimStart inputString;
          sign = (if S \<noteq> [] \<and> hd S = 0x2D then - 1 else 1);
          S1 = (if S \<noteq> [] \<and> (hd S = 0x2B \<or> hd S = 0x2D) then tl S else S);
          hex = hex_prefix S1;
          R = (if hex then 16 else 10);
          S2 = (if hex then drop 2 S1 else S1);
          Z = takeWhile (is_radix_digit R) S2
      in if Z = [] then NaN else read_number (sign * int (radix_value R Z)))"

definition parseInt :: "jsval \<Rightarrow> jsnum" where
  "parseInt v = parseInt_string (ToString v)"

section \<open>Input validation (utils/validation.js)\<close>

definition sanitizeSearchTerm :: "jsval \<Rightarrow> jsstring" where
  "sanitizeSearchTerm term =
     (case term of
        JStr s \<Rightarrow>
          if \<not> truthy term then []
          else take 100 (filter (\<lambda>c. c \<noteq> 0x3C \<and> c \<noteq> 0x3E) (trim s))
      | _ \<Rightarrow> [])"

record pagination_params =
  page :: jsnum
  limit :: jsnum

definition validatePagination :: "jsval \<Rightarrow> jsval \<Rightarrow> pagination_params" where
  "validatePagination page_arg limit_arg =
     (let validatedPage = Math_max (Num 1) (js_or (parseInt page_arg) (Num 1));
          validatedLimit =
            Math_min (Num 100) (Math_max (Num 1) (js_or (parseInt limit_arg) (Num 50)))
      in \<lparr>page = validatedPage, limit = validatedLimit\<rparr>)"


section \<open>Numbers in the service\<close>

text \<open>
  \<open>a + b\<close>, \<open>a - b\<close> and \<open>a * b\<close> on numbers: the exact result, rounded to a double.
\<close>

fun js_add :: "jsnum \<Rightarrow> jsnum \<Rightarrow> jsnum" where
  "js_add NaN _ = NaN"
| "js_add _ NaN = NaN"
| "js_add PInf NInf = NaN"
| "js_add NInf PInf = NaN"
| "js_add PInf _ = PInf"
| "js_add _ PInf = PInf"
| "js_add NInf _ = NInf"
| "js_add _ NInf = NInf"
| "js_add (Num a) (Num b) = rounded (a + b)"

fun js_neg :: "jsnum \<Rightarrow> jsnum" where
  "js_neg NaN = NaN"
| "js_neg PInf = NInf"
| "js_neg NInf = PInf"
| "js_neg (Num a) = Num (- a)"

definition js_sub :: "jsnum \<Rightarrow> jsnum \<Rightarrow> jsnum" where
  "js_sub a b = js_add a (js_neg b)"

text \<open>The sign of a number that is not \<open>NaN\<close>: \<open>1\<close>, \<open>0\<close> or \<open>-1\<close>.\<close>

fun js_sign :: "jsnum \<Rightarrow> int" where
  "js_sign NaN = 0"
| "js_sign PInf = 1"
| "js_sign NInf = - 1"
| "js_sign (Num a) = sgn a"

fun js_mul :: "jsnum \<Rightarrow> jsnum \<Rightarrow> jsnum" where
  "js_mul NaN _ = NaN"
| "js_mul _ NaN = NaN"
| "js_mul (Num a) (Num b) = rounded (a * b)"
| "js_mul a b =
     (if js_sign a * js_sign b = 0 then NaN
      else if js_sign a * js_sign b = 1 then PInf else NInf)"

text \<open>
  The double \<open>a / b\<close> of two positive integers, as a mantissa \<open>m\<close> and an exponent \<open>t\<close>:
  the quotient lies in \<open>[2 ^ e, 2 ^ (e + 1))\<close> for \<open>e = quotient_exponent a b\<close>, the
  doubles there are the multiples of \<open>2 ^ (e - 52)\<close> (of \<open>2 ^ - 1074\<close> below
  \<open>2 ^ - 1022\<close>), and the double is the multiple \<open>m \<times> 2 ^ t\<close> nearest to the quotient, a
  tie to the even \<open>m\<close>.
\<close>

definition quotient_exponent :: "nat \<Rightarrow> nat \<Rightarrow> int" where
  "quotient_exponent a b =
     (let e = int (bit_length a) - int (bit_length b)
      in if (if 0 \<le> e then b * 2 ^ nat e \<le> a else b \<le> a * 2 ^ nat (- e)) then e
         else e - 1)"

definition double_quotient :: "nat \<Rightarrow> nat \<Rightarrow> nat \<times> int" where
  "double_quotient a b =
     (let t = max (quotient_exponent a b) (- 1022) - 52
      in (if t \<le> 0 then divide_round (a * 2 ^ nat (- t)) b
          else divide_round a (b * 2 ^ nat t), t))"

text \<open>\<open>m \<times> 2 ^ t\<close> rounded up, and rounded down, to an integer.\<close>

definition ceil_scaled :: "nat \<Rightarrow> int \<Rightarrow> int" where
  "ceil_scaled m t =
     (if 0 \<le> t then int m * 2 ^ nat t else - ((- int m) div 2 ^ nat (- t)))"

definition floor_scaled :: "nat \<Rightarrow> int \<Rightarrow> int" where
  "floor_scaled m t = (if 0 \<le> t then int m * 2 ^ nat t else int m div 2 ^ nat (- t))"

text \<open>
  \<open>Math.ceil(a / b)\<close>: the double quotient, rounded up. A division by zero gives an
  infinity, or \<open>NaN\<close> for \<open>0 / 0\<close>; a negative quotient is the negated positive one.
\<close>

fun Math_ceil_div :: "jsnum \<Rightarrow> jsnum \<Rightarrow> jsnum" where
  "Math_ceil_div NaN _ = NaN"
| "Math_ceil_div _ NaN = NaN"
| "Math_ceil_div (Num a) (Num b) =
     (if b = 0 then (if a = 0 then NaN else if 0 < a then PInf else NInf)
      else if a = 0 then Num 0
      else (case double_quotient (nat \<bar>a\<bar>) (nat \<bar>b\<bar>) of
              (m, t) \<Rightarrow>
                if 0 < t \<and> 2 ^ 1024 \<le> int m * 2 ^ nat t
                then (if sgn a = sgn b then PInf else NInf)
                else if sgn a = sgn b then Num (ceil_scaled m t)
                else Num (- floor_scaled m t)))"
| "Math_ceil_div (Num a) _ = Num 0"
| "Math_ceil_div PInf (Num b) = (if 0 \<le> b then PInf else NInf)"
| "Math_ceil_div NInf (Num b) = (if 0 \<le> b then NInf else PInf)"
| "Math_ceil_div _ _ = NaN"

section \<open>Rows and the database client\<close>

text \<open>
  The public projection of a creature has six fields; a stored row has these and
  whatever other columns the table holds.
\<close>

record digimon =
  digimon_id :: jsval
  number :: jsval
  name :: jsval
  stage :: jsval
  attribute :: jsval
  image_url :: jsval

record digimon_row = digimon +
  other_columns :: "(jsstring \<times> jsval) list"

type_synonym requirement = "(jsstring \<times> jsval) list"

type_synonym stage_count = "(jsstring \<times> jsval) list"

record to_edge =
  to_digimon :: "digimon_row option"

record from_edge =
  from_digimon :: "digimon_row option"

record pg_error =
  code :: jsstring
  message :: jsstring

text \<open>
  What an awaited query gives: \<open>{ data, error, count }\<close>, each of them possibly
  \<open>null\<close> (\<open>None\<close>).
\<close>

record 'd response =
  data :: "'d option"
  error :: "pg_error option"
  count :: "nat option"

text \<open>
  The queries the service builds, and the client as the answers it gives to them. A
  run of the service is a result together with the list of the queries it issued, in
  order.
\<close>

datatype query =
    SelectRange jsnum jsnum "jsval option"
  | SelectById jsval
  | SelectByName jsval
  | SelectIlike jsstring jsnum
  | SelectEvolvesTo jsval
  | SelectEvolvesFrom jsval
  | SelectRequirements jsval
  | CountDigimons
  | RpcCountByStage

record backend =
  select_range :: "jsnum \<Rightarrow> jsnum \<Rightarrow> jsval option \<Rightarrow> digimon_row list response"
  select_by_id :: "jsval \<Rightarrow> digimon_row response"
  select_by_name :: "jsval \<Rightarrow> digimon_row response"
  select_ilike :: "jsstring \<Rightarrow> jsnum \<Rightarrow> digimon_row list response"
  select_evolves_to :: "jsval \<Rightarrow> to_edge list response"
  select_evolves_from :: "jsval \<Rightarrow> from_edge list response"
  select_requirements :: "jsval \<Rightarrow> requirement list response"
  count_digimons :: "unit response"
  rpc_count_by_stage :: "stage_count list response"

text \<open>
  What a service method throws: \<open>new Error(message)\<close>, or the \<open>TypeError\<close> of
  calling \<open>map\<close> on a \<open>null\<close> \<open>data\<close>. The \<open>console.error\<close> before a \<open>throw\<close>
  writes to the log only and is left out.
\<close>

datatype js_error = Error jsstring | TypeError


section \<open>The query service (services/digimonService.js)\<close>

fun formatDigimon :: "digimon_row option \<Rightarrow> digimon option" where
  "formatDigimon None = None"
| "formatDigimon (Some d) =
     Some \<lparr>digimon_id = digimon_id d, number = number d, name = name d, stage = stage d,
       attribute = attribute d, image_url = image_url d\<rparr>"

record pagination = pagination_params +
  total_rows :: "nat option"
  totalPages :: jsnum

record list_result =
  list_data :: "digimon option list"
  list_pagination :: pagination

text \<open>
  The argument object of \<open>getAllDigimons\<close>: \<open>page\<close> and \<open>limit\<close> are numbers or
  \<open>undefined\<close> (\<open>None\<close>), which the parameter defaults replace.
\<close>

record list_args =
  page_arg :: "jsnum option"
  limit_arg :: "jsnum option"
  stage_arg :: jsval

text \<open>\<open>ToNumber\<close> of a \<open>count\<close>: \<open>null\<close> counts as \<open>0\<close> in \<open>count / limit\<close>.\<close>

definition count_number :: "nat option \<Rightarrow> jsnum" where
  "count_number c = (case c of None \<Rightarrow> Num 0 | Some n \<Rightarrow> Num (int n))"

definition getAllDigimons ::
  "backend \<Rightarrow> list_args \<Rightarrow> (js_error + list_result) \<times> query list" where
  "getAllDigimons db args =
     (let page_v = (case page_arg args of None \<Rightarrow> Num 1 | Some p \<Rightarrow> p);
          limit_v = (case limit_arg args of None \<Rightarrow> Num 50 | Some l \<Rightarrow> l);
          from = js_mul (js_sub page_v (Num 1)) limit_v;
          to = js_sub (js_add from limit_v) (Num 1);
          stage_filter = (if truthy (stage_arg args) then Some (stage_arg args) else None);
          r = select_range db from to stage_filter;
          issued = [SelectRange from to stage_filter]
      in if error r \<noteq> None
         then (Inl (Error (lit ''N'' @ [0xE3] @ lit ''o foi poss'' @ [0xED]
                 @ lit ''vel buscar os Digimons.'')), issued)
         else (case data r of
                 None \<Rightarrow> (Inl TypeError, issued)
               | Some rows \<Rightarrow>
                   (Inr \<lparr>list_data = map (\<lambda>row. formatDigimon (Some row)) rows,
                         list_pagination =
                           \<lparr>page = page_v, limit = limit_v, total_rows = count r,
                            totalPages = Math_ceil_div (count_number (count r)) limit_v\<rparr>\<rparr>,
                    issued)))"

definition getDigimonById ::
  "backend \<Rightarrow> jsval \<Rightarrow> (js_error + digimon option) \<times> query list" where
  "getDigimonById db i =
     (let r = select_by_id db i; issued = [SelectById i]
      in if (case error r of None \<Rightarrow> False | Some e \<Rightarrow> code e \<noteq> lit ''PGRST116'')
         then (Inl (Error (lit ''Erro ao buscar Digimon por ID.'')), issued)
         else (Inr (formatDigimon (data r)), issued))"

definition getDigimonByName ::
  "backend \<Rightarrow> jsval \<Rightarrow> (js_error + digimon option) \<times> query list" where
  "getDigimonByName db n =
     (let r = select_by_name db n; issued = [SelectByName n]
      in if (case error r of None \<Rightarrow> False | Some e \<Rightarrow> code e \<noteq> lit ''PGRST116'')
         then (Inl (Error (lit ''Erro ao buscar Digimon por nome.'')), issued)
         else (Inr (formatDigimon (data r)), issued))"

record search_args =
  searchTerm :: jsstring
  search_limit :: "jsnum option"

definition searchDigimons ::
  "backend \<Rightarrow> search_args \<Rightarrow> (js_error + digimon option list) \<times> query list" where
  "searchDigimons db args =
     (let limit_v = (case search_limit args of None \<Rightarrow> Num 10 | Some l \<Rightarrow> l);
          pattern = lit ''%'' @ searchTerm args @ lit ''%'';
          r = select_ilike db pattern limit_v;
          issued = [SelectIlike pattern limit_v]
      in if error r \<noteq> None
         then (Inl (Error (lit ''Erro ao pesquisar Digimons.'')), issued)
         else (case data r of
                 None \<Rightarrow> (Inl TypeError, issued)
               | Some rows \<Rightarrow> (Inr (map (\<lambda>row. formatDigimon (Some row)) rows), issued)))"

text \<open>
  The result of \<open>getEvolutionData\<close>: \<open>{ digimon: null }\<close>, or the object with the four
  fields. The requirement rows are passed on as the client gave them.
\<close>

datatype evolution_data =
    NoDigimon
  | EvolutionData digimon "digimon option list" "digimon option list"
      "requirement list option"

fun evolution_digimon :: "evolution_data \<Rightarrow> digimon option" where
  "evolution_digimon NoDigimon = None"
| "evolution_digimon (EvolutionData d _ _ _) = Some d"

definition getEvolutionData ::
  "backend \<Rightarrow> jsval \<Rightarrow> (js_error + evolution_data) \<times> query list" where
  "getEvolutionData db i =
     (case getDigimonById db i of
        (Inl e, issued) \<Rightarrow> (Inl e, issued)
      | (Inr None, issued) \<Rightarrow> (Inr NoDigimon, issued)
      | (Inr (Some d), issued) \<Rightarrow>
          (let evolvesTo = select_evolves_to db i;
               evolvesFrom = select_evolves_from db i;
               requirements = select_requirements db i;
               issued' = issued @ [SelectEvolvesTo i, SelectEvolvesFrom i, SelectRequirements i]
           in if error evolvesTo \<noteq> None \<or> error evolvesFrom \<noteq> None
                 \<or> error requirements \<noteq> None
              then (Inl (Error (lit ''Erro ao buscar dados de evolu'' @ [0xE7, 0xE3]
                      @ lit ''o.'')), issued')
              else (case (data evolvesTo, data evolvesFrom) of
                      (Some es, Some fs) \<Rightarrow>
                        (Inr (EvolutionData d
                               (map (\<lambda>e. formatDigimon (to_digimon e)) es)
                               (map (\<lambda>e. formatDigimon (from_digimon e)) fs)
                               (data requirements)), issued')
                    | _ \<Rightarrow> (Inl TypeError, issued'))))"

record stats =
  total_digimons :: "nat option"
  count_by_stage :: "stage_count list option"

definition getStats :: "backend \<Rightarrow> (js_error + stats) \<times> query list" where
  "getStats db =
     (let t = count_digimons db; s = rpc_count_by_stage db;
          issued = [CountDigimons, RpcCountByStage]
      in if error t \<noteq> None \<or> error s \<noteq> None
         then (Inl (Error (lit ''Erro ao buscar estat'' @ [0xED] @ lit ''sticas.'')), issued)
         else (Inr \<lparr>total_digimons = count t, count_by_stage = data s\<rparr>, issued))"

section \<open>The routes (routes/digimons.js)\<close>

text \<open>What a response carries as its \<open>data\<close>.\<close>

datatype payload =
    DigimonData digimon
  | DigimonList "digimon option list"
  | StatsData stats
  | EvolutionPayload evolution_data

text \<open>
  Modelled from the spec: the envelopes that the helpers of utils/response.js build
  (that file is not among the sources). The spec gives them as
  \<open>{success, data, message}\<close>, \<open>{success, data, pagination}\<close> and
  \<open>{success, error, statusCode}\<close>.
\<close>

datatype envelope =
    SuccessEnvelope bool payload jsstring
  | PaginatedEnvelope bool payload pagination
  | ErrorEnvelope bool jsstring "nat option"

text \<open>
  Modelled from the spec: \<open>successResponse(data, message)\<close> of utils/response.js, the
  envelope \<open>{success: true, data, message}\<close>.
\<close>

definition successResponse :: "payload \<Rightarrow> jsstring \<Rightarrow> envelope" where
  "successResponse d msg = SuccessEnvelope True d msg"

text \<open>
  Modelled from the spec: \<open>paginatedResponse(data, pagination)\<close> of utils/response.js,
  the envelope \<open>{success: true, data, pagination}\<close>.
\<close>

definition paginatedResponse :: "payload \<Rightarrow> pagination \<Rightarrow> envelope" where
  "paginatedResponse d pg = PaginatedEnvelope True d pg"

text \<open>
  Modelled from the spec: \<open>errorResponse(message, statusCode)\<close> of utils/response.js,
  the envelope \<open>{success: false, error, statusCode}\<close>. The spec does not say which
  status code the helper writes when its caller passes none; \<open>None\<close> stands for that
  one.
\<close>

definition errorResponse :: "jsstring \<Rightarrow> nat option \<Rightarrow> envelope" where
  "errorResponse msg status_code = ErrorEnvelope False msg status_code"

text \<open>
  A request, as far as the handlers read it: the properties of \<open>request.query\<close> and of
  \<open>request.params\<close>, \<open>JUndefined\<close> where a property is absent. A handler either sends
  a reply (status \<open>200\<close> unless it sets another) or lets an error of the service pass.

  Modelled from the spec: \<open>asyncHandler\<close> of middleware/errorHandler.js (not among the
  sources) wraps each handler and hands an error it throws to the error handler, which
  answers with a server error; \<open>Raised\<close> is that outcome.
\<close>

record request =
  query :: "jsstring \<Rightarrow> jsval"
  params :: "jsstring \<Rightarrow> jsval"

datatype outcome = Reply nat envelope | Raised js_error

definition list_handler :: "backend \<Rightarrow> request \<Rightarrow> outcome \<times> query list" where
  "list_handler db req =
     (let v = validatePagination (query req (lit ''page'')) (query req (lit ''limit''));
          stage_v = query req (lit ''stage'')
      in case getAllDigimons db
                \<lparr>page_arg = Some (page v), limit_arg = Some (limit v), stage_arg = stage_v\<rparr> of
           (Inl e, issued) \<Rightarrow> (Raised e, issued)
         | (Inr result, issued) \<Rightarrow>
             (Reply 200 (paginatedResponse (DigimonList (list_data result))
                (list_pagination result)), issued))"

definition search_handler :: "backend \<Rightarrow> request \<Rightarrow> outcome \<times> query list" where
  "search_handler db req =
     (let term = sanitizeSearchTerm (query req (lit ''q''));
          limit_v = Math_min (Num 50)
                      (Math_max (Num 1) (js_or (parseInt (query req (lit ''limit''))) (Num 10)))
      in if \<not> truthy (JStr term)
         then (Reply 400 (errorResponse
                 (lit ''Termo de busca '' @ [0xE9] @ lit '' obrigat'' @ [0xF3] @ lit ''rio'')
                 None), [])
         else (case searchDigimons db \<lparr>searchTerm = term, search_limit = Some limit_v\<rparr> of
                 (Inl e, issued) \<Rightarrow> (Raised e, issued)
               | (Inr results, issued) \<Rightarrow>
                   (Reply 200 (successResponse (DigimonList results)
                      (decimal (length results) @ lit '' Digimons encontrados'')), issued)))"

definition stats_handler :: "backend \<Rightarrow> request \<Rightarrow> outcome \<times> query list" where
  "stats_handler db req =
     (case getStats db of
        (Inl e, issued) \<Rightarrow> (Raised e, issued)
      | (Inr st, issued) \<Rightarrow>
          (Reply 200 (successResponse (StatsData st)
             (lit ''Estat'' @ [0xED] @ lit ''sticas recuperadas com sucesso'')), issued))"

definition not_found :: envelope where
  "not_found = errorResponse (lit ''Digimon n'' @ [0xE3] @ lit ''o encontrado'') (Some 404)"

definition id_handler :: "backend \<Rightarrow> request \<Rightarrow> outcome \<times> query list" where
  "id_handler db req =
     (case getDigimonById db (params req (lit ''id'')) of
        (Inl e, issued) \<Rightarrow> (Raised e, issued)
      | (Inr None, issued) \<Rightarrow> (Reply 404 not_found, issued)
      | (Inr (Some d), issued) \<Rightarrow>
          (Reply 200 (successResponse (DigimonData d) (lit ''Digimon encontrado'')), issued))"

definition evolutions_handler :: "backend \<Rightarrow> request \<Rightarrow> outcome \<times> query list" where
  "evolutions_handler db req =
     (case getEvolutionData db (params req (lit ''id'')) of
        (Inl e, issued) \<Rightarrow> (Raised e, issued)
      | (Inr evolutionData, issued) \<Rightarrow>
          (if evolution_digimon evolutionData = None then (Reply 404 not_found, issued)
           else (Reply 200 (successResponse (EvolutionPayload evolutionData)
                   (lit ''Dados de evolu'' @ [0xE7, 0xE3] @ lit ''o recuperados'')), issued)))"

definition name_handler :: "backend \<Rightarrow> request \<Rightarrow> outcome \<times> query list" where
  "name_handler db req =
     (case getDigimonByName db (params req (lit ''name'')) of
        (Inl e, issued) \<Rightarrow> (Raised e, issued)
      | (Inr None, issued) \<Rightarrow> (Reply 404 not_found, issued)
      | (Inr (Some d), issued) \<Rightarrow>
          (Reply 200 (successResponse (DigimonData d) (lit ''Digimon encontrado'')), issued))"

text \<open>The six GET routes that \<open>digimonRoutes\<close> registers.\<close>

datatype route = GetList | GetSearch | GetStats | GetById | GetEvolutions | GetByName

fun digimonRoutes :: "route \<Rightarrow> backend \<Rightarrow> request \<Rightarrow> outcome \<times> query list" where
  "digimonRoutes GetList = list_handler"
| "digimonRoutes GetSearch = search_handler"
| "digimonRoutes GetStats = stats_handler"
| "digimonRoutes GetById = id_handler"
| "digimonRoutes GetEvolutions = evolutions_handler"
| "digimonRoutes GetByName = name_handler"


section \<open>A sample database\<close>

text \<open>
  Two creatures, one edge between them, and a table of 125 rows; identifier 2 has its
  requirements query fail, and every other identifier has no row.
\<close>

definition agumon :: digimon_row where
  "agumon =
     \<lparr>digimon_id = JNum (Num 1), number = JNum (Num 21), name = JStr (lit ''Agumon''),
      stage = JStr (lit ''III''), attribute = JStr (lit ''Vaccine''),
      image_url = JStr (lit ''agumon.png''),
      other_columns = [(lit ''created_at'', JStr (lit ''2024-01-01''))]\<rparr>"

definition greymon :: digimon_row where
  "greymon =
     \<lparr>digimon_id = JNum (Num 2), number = JNum (Num 22), name = JStr (lit ''Greymon''),
      stage = JStr (lit ''IV''), attribute = JStr (lit ''Vaccine''),
      image_url = JStr (lit ''greymon.png''),
      other_columns = []\<rparr>"

definition no_rows :: pg_error where
  "no_rows = \<lparr>code = lit ''PGRST116'', message = lit ''no rows returned''\<rparr>"

definition timeout_error :: pg_error where
  "timeout_error = \<lparr>code = lit ''57014'', message = lit ''statement timeout''\<rparr>"

definition answer :: "'d \<Rightarrow> 'd response" where
  "answer d = \<lparr>data = Some d, error = None, count = None\<rparr>"

definition failure :: "pg_error \<Rightarrow> 'd response" where
  "failure e = \<lparr>data = None, error = Some e, count = None\<rparr>"

definition sample_db :: backend where
  "sample_db =
     \<lparr>select_range = (\<lambda>f t s. \<lparr>data = Some [agumon, greymon], error = None, count = Some 125\<rparr>),
      select_by_id = (\<lambda>i. if i = JNum (Num 1) then answer agumon
                          else if i = JNum (Num 2) then answer greymon
                          else failure no_rows),
      select_by_name = (\<lambda>n. if n = JStr (lit ''Agumon'') then answer agumon
                            else failure no_rows),
      select_ilike = (\<lambda>p l. answer [agumon]),
      select_evolves_to = (\<lambda>i. if i = JNum (Num 1) then answer [\<lparr>to_digimon = Some greymon\<rparr>]
                               else answer []),
      select_evolves_from = (\<lambda>i. if i = JNum (Num 2)
                                 then answer [\<lparr>from_digimon = Some agumon\<rparr>]
                                 else answer []),
      select_requirements = (\<lambda>i. if i = JNum (Num 2) then failure timeout_error
                                 else answer [[(lit ''level'', JNum (Num 11))]]),
      count_digimons = \<lparr>data = None, error = None, count = Some 125\<rparr>,
      rpc_count_by_stage = answer [[(lit ''stage'', JStr (lit ''III'')),
                                    (lit ''count'', JNum (Num 40))]]\<rparr>"


text \<open>A request with the given query-string and path properties.\<close>

definition request_of :: "(jsstring \<times> jsval) list \<Rightarrow> (jsstring \<times> jsval) list \<Rightarrow> request" where
  "request_of q p =
     \<lparr>query = (\<lambda>k. case map_of q k of None \<Rightarrow> JUndefined | Some v \<Rightarrow> v),
      params = (\<lambda>k. case map_of p k of None \<Rightarrow> JUndefined | Some v \<Rightarrow> v)\<rparr>"

section \<open>Facts about the JavaScript primitives\<close>

lemma bit_length_le: "n < 2 ^ k \<Longrightarrow> bit_length n \<le> k"
proof (induction n arbitrary: k rule: bit_length.induct)
  case (1 n)
  show ?case
  proof (cases "n = 0")
    case True
    then show ?thesis by (simp add: bit_length.simps)
  next
    case False
    with "1.prems" obtain j where k: "k = Suc j" by (cases k) auto
    with "1.prems" have "n div 2 < 2 ^ j" by auto
    with False "1.IH" have "bit_length (n div 2) \<le> j" by simp
    with False k show ?thesis by (simp add: bit_length.simps [of n])
  qed
qed

lemma bit_length_bounds:
  "0 < n \<Longrightarrow> 2 ^ (bit_length n - 1) \<le> n \<and> n < 2 ^ bit_length n"
proof (induction n rule: bit_length.induct)
  case (1 n)
  show ?case
  proof (cases "n div 2 = 0")
    case True
    with "1.prems" have "n = 1" by auto
    then show ?thesis by (simp add: bit_length.simps)
  next
    case False
    with "1.prems" "1.IH" have ih: "2 ^ (bit_length (n div 2) - 1) \<le> n div 2"
      "n div 2 < 2 ^ bit_length (n div 2)" by auto
    from False have pos: "0 < bit_length (n div 2)"
      by (simp add: bit_length.simps [of "n div 2"])
    have bl: "bit_length n = Suc (bit_length (n div 2))"
      using "1.prems" by (simp add: bit_length.simps [of n])
    from pos have "(2::nat) ^ bit_length (n div 2) = 2 * 2 ^ (bit_length (n div 2) - 1)"
      by (cases "bit_length (n div 2)") auto
    with ih have "2 ^ bit_length (n div 2) \<le> n" by linarith
    moreover from ih have "n < 2 * 2 ^ bit_length (n div 2)" by linarith
    ultimately show ?thesis by (simp add: bl)
  qed
qed



lemma read_number_small: "\<bar>n\<bar> < 10 ^ 21 \<Longrightarrow> read_number n = Num n"
proof -
  assume n: "\<bar>n\<bar> < 10 ^ 21"
  have "(10::int) ^ 21 < 2 ^ 1024 - 2 ^ 970" by simp
  with n have "\<not> 2 ^ 1024 - 2 ^ 970 \<le> \<bar>n\<bar>" by linarith
  then show ?thesis by (simp add: read_number_def)
qed

lemma read_number_cases:
  "read_number n = PInf \<or> read_number n = NInf \<or> read_number n = Num n"
  by (simp add: read_number_def)

lemma digits10_nonempty: "digits10 n \<noteq> []"
  by (subst digits10.simps) simp

lemma digits10_lt10: "d \<in> set (digits10 n) \<Longrightarrow> d < 10"
proof (induction n arbitrary: d rule: digits10.induct)
  case (1 n)
  show ?case
  proof (cases "n < 10")
    case True
    with "1.prems" show ?thesis by (simp add: digits10.simps [of n])
  next
    case False
    with "1.prems" have "d \<in> set (digits10 (n div 10)) \<or> d = n mod 10"
      by (auto simp: digits10.simps [of n])
    with False "1.IH" show ?thesis by auto
  qed
qed

lemma digits10_value: "foldl (\<lambda>acc d. acc * 10 + d) 0 (digits10 n) = n"
proof (induction n rule: digits10.induct)
  case (1 n)
  show ?case
  proof (cases "n < 10")
    case True
    then show ?thesis by (simp add: digits10.simps [of n])
  next
    case False
    with "1.IH" show ?thesis by (simp add: digits10.simps [of n])
  qed
qed

lemma digits10_hd: "0 < n \<Longrightarrow> 0 < hd (digits10 n)"
proof (induction n rule: digits10.induct)
  case (1 n)
  show ?case
  proof (cases "n < 10")
    case True
    with "1.prems" show ?thesis by (simp add: digits10.simps [of n])
  next
    case False
    then have "0 < n div 10" by simp
    with False "1.IH" have "0 < hd (digits10 (n div 10))" by simp
    with False show ?thesis
      by (simp add: digits10.simps [of n] digits10_nonempty)
  qed
qed

lemma small_digit_cases: "d < 10 \<Longrightarrow> d \<in> {0, 1, 2, 3, 4, 5, 6, 7, 8, 9 :: nat}"
  by auto

lemma digit_value_digit_char: "d < 10 \<Longrightarrow> digit_value (digit_char d) = Some d"
  by (drule small_digit_cases) (auto simp: digit_value_def digit_char_def)

lemma digit_char_not_ws: "d < 10 \<Longrightarrow> \<not> isWhiteSpace (digit_char d)"
  by (drule small_digit_cases) (auto simp: isWhiteSpace_def digit_char_def)

lemma digit_char_not_special:
  "d < 10 \<Longrightarrow> digit_char d \<notin> {0x2B, 0x2D, 0x78, 0x58}"
  by (drule small_digit_cases) (auto simp: digit_char_def)

lemma digit_char_zero: "d < 10 \<Longrightarrow> digit_char d = 0x30 \<longleftrightarrow> d = 0"
  by (drule small_digit_cases) (auto simp: digit_char_def)


lemma is_radix_digit_digit_char: "d < 10 \<Longrightarrow> is_radix_digit 10 (digit_char d)"
  by (simp add: is_radix_digit_def digit_value_digit_char)

lemma radix_value_digits:
  "\<forall>d\<in>set ds. d < 10 \<Longrightarrow>
   foldl (\<lambda>acc c. acc * 10 + the (digit_value c)) a (map digit_char ds) =
   foldl (\<lambda>acc d. acc * 10 + d) a ds"
  by (induction ds arbitrary: a) (simp_all add: digit_value_digit_char)


lemma takeWhile_digits:
  assumes "\<forall>d\<in>set ds. d < 10" and "rest = [] \<or> \<not> is_radix_digit 10 (hd rest)"
  shows "takeWhile (is_radix_digit 10) (map digit_char ds @ rest) = map digit_char ds"
proof -
  have "takeWhile (is_radix_digit 10) rest = []"
    using assms(2) by (cases rest) auto
  moreover have "\<And>c. c \<in> set (map digit_char ds) \<Longrightarrow> is_radix_digit 10 c"
    using assms(1) by (auto simp: is_radix_digit_digit_char)
  then have "takeWhile (is_radix_digit 10) (map digit_char ds @ rest) =
      map digit_char ds @ takeWhile (is_radix_digit 10) rest"
    by (rule takeWhile_append2)
  ultimately show ?thesis by simp
qed

lemma parseInt_string_digits:
  assumes ne: "ds \<noteq> []" and lt: "\<forall>d\<in>set ds. d < 10"
    and rest: "rest = [] \<or> \<not> is_radix_digit 10 (hd rest)"
    and nohex: "\<not> hex_prefix (map digit_char ds @ rest)"
  shows "parseInt_string (map digit_char ds @ rest) =
           read_number (int (foldl (\<lambda>acc d. acc * 10 + d) 0 ds))"
    and "parseInt_string (0x2D # map digit_char ds @ rest) =
           read_number (- int (foldl (\<lambda>acc d. acc * 10 + d) 0 ds))"
proof -
  let ?S = "map digit_char ds @ rest"
  from ne obtain d ds' where ds: "ds = d # ds'" by (cases ds) auto
  with lt have d: "d < 10" by simp
  have hdS: "hd ?S = digit_char d" and S_ne: "?S \<noteq> []" by (simp_all add: ds)
  have ws: "trimStart ?S = ?S"
    using digit_char_not_ws [OF d] by (simp add: trimStart_def ds)
  have ws': "trimStart (0x2D # ?S) = 0x2D # ?S"
    by (simp add: trimStart_def isWhiteSpace_def)
  have sgn: "hd ?S \<noteq> 0x2D" "hd ?S \<noteq> 0x2B"
    using digit_char_not_special [OF d] by (simp_all add: hdS)
  have nh: "hex_prefix ?S = False"
    using nohex by simp
  have tw: "takeWhile (is_radix_digit 10) ?S = map digit_char ds"
    by (rule takeWhile_digits [OF lt rest])
  have val: "radix_value 10 (map digit_char ds) = foldl (\<lambda>acc d. acc * 10 + d) 0 ds"
    unfolding radix_value_def by (rule radix_value_digits [OF lt])
  show "parseInt_string ?S = read_number (int (foldl (\<lambda>acc d. acc * 10 + d) 0 ds))"
    unfolding parseInt_string_def Let_def ws using sgn S_ne ne
    by (simp only: nh tw val if_False if_True simp_thms map_is_Nil_conv) simp
  show "parseInt_string (0x2D # ?S) = read_number (- int (foldl (\<lambda>acc d. acc * 10 + d) 0 ds))"
    unfolding parseInt_string_def Let_def ws' using ne
    by (simp only: list.sel nh tw val if_False if_True simp_thms map_is_Nil_conv list.simps) simp
qed


lemma no_hex_prefix_digits: "\<forall>d\<in>set ds. d < 10 \<Longrightarrow> \<not> hex_prefix (map digit_char ds)"
proof (cases ds)
  case Nil
  then show ?thesis by (simp add: hex_prefix_def)
next
  case (Cons a ds')
  assume lt: "\<forall>d\<in>set ds. d < 10"
  show ?thesis
  proof (cases ds')
    case Nil
    with Cons show ?thesis by (simp add: hex_prefix_def)
  next
    case (Cons b ds'')
    with lt \<open>ds = a # ds'\<close> have "b < 10" by simp
    from digit_char_not_special [OF this] Cons \<open>ds = a # ds'\<close>
    show ?thesis by (simp add: hex_prefix_def)
  qed
qed

lemma parseInt_string_decimal:
  "parseInt_string (decimal n) = read_number (int n)"
  "parseInt_string (0x2D # decimal n) = read_number (- int n)"
proof -
  have lt: "\<forall>d\<in>set (digits10 n). d < 10" by (simp add: digits10_lt10)
  have nohex: "\<not> hex_prefix (map digit_char (digits10 n) @ [])"
    using no_hex_prefix_digits [OF lt] by simp
  from parseInt_string_digits [OF digits10_nonempty lt _ nohex]
  show "parseInt_string (decimal n) = read_number (int n)"
    and "parseInt_string (0x2D # decimal n) = read_number (- int n)"
    by (simp_all add: decimal_def digits10_value)
qed

lemma exponential_shape:
  assumes "0 < n"
  shows "\<exists>c rest. exponential n = digit_char (hd (digits10 n)) # c # rest \<and> (c = 0x2E \<or> c = 0x65)"
proof -
  obtain d ds where ds: "digits10 n = d # ds"
    using digits10_nonempty [of n] by (cases "digits10 n") auto
  with digits10_hd [OF assms] have d0: "d \<noteq> 0" by simp
  have "\<exists>xs. dropWhile (\<lambda>d. d = 0) (rev ds @ [d]) = xs @ [d]"
    using d0 by (simp add: dropWhile_append) 
  then obtain xs where "rev (dropWhile (\<lambda>d. d = 0) (rev (d # ds))) = d # rev xs"
    by auto
  then show ?thesis
    by (cases "rev xs") (simp_all add: exponential_def ds Let_def lit_def)
qed

lemma divide_round_ge: "num div den \<le> divide_round num den"
  by (simp add: divide_round_def Let_def)

lemma round53_pos: "0 < n \<Longrightarrow> 0 < round53 n"
proof (cases "bit_length n \<le> 53")
  case True
  assume "0 < n"
  with True show ?thesis by (simp add: round53_def)
next
  case False
  assume n: "0 < n"
  let ?d = "(2::nat) ^ (bit_length n - 53)"
  have "?d \<le> 2 ^ (bit_length n - 1)" by (rule power_increasing) simp_all
  also from bit_length_bounds [OF n] have "\<dots> \<le> n" by simp
  finally have "?d \<le> n" .
  then have "1 \<le> n div ?d" by (simp add: Suc_le_eq div_greater_zero_iff)
  with divide_round_ge [of n ?d] have "0 < divide_round n ?d" by linarith
  with False show ?thesis by (simp add: round53_def Let_def)
qed

lemma reads_as_pos: "reads_as d v \<Longrightarrow> 0 < v \<Longrightarrow> 0 < d"
proof (rule ccontr)
  assume r: "reads_as d v" and v: "0 < v" and "\<not> 0 < d"
  then have "d = 0" by simp
  with r have "round53 v = 0" by (simp add: reads_as_def round53_def bit_length.simps)
  with round53_pos [OF v] show False by simp
qed

lemma candidate_pos: "candidate v len k = Some d \<Longrightarrow> 0 < v \<Longrightarrow> 0 < d"
  by (auto simp: candidate_def Let_def split: if_splits dest: reads_as_pos)

lemma shortest_from_pos: "0 < v \<Longrightarrow> 0 < shortest_from v len k"
proof (induction v len k rule: shortest_from.induct)
  case (1 v len k)
  show ?case
  proof (cases "len \<le> k")
    case True
    with "1.prems" show ?thesis by (simp add: shortest_from.simps [of v len k])
  next
    case False
    show ?thesis
    proof (cases "candidate v len k")
      case None
      with False "1.IH" "1.prems" show ?thesis
        by (simp add: shortest_from.simps [of v len k])
    next
      case (Some d)
      with False candidate_pos [OF Some "1.prems"] show ?thesis
        by (simp add: shortest_from.simps [of v len k])
    qed
  qed
qed

lemma shortest_pos: "0 < v \<Longrightarrow> 0 < shortest v"
  by (simp add: shortest_def shortest_from_pos)

lemma parseInt_string_exponential:
  assumes "0 < n"
  shows "parseInt_string (exponential n) = Num (int (hd (digits10 n)))"
    and "parseInt_string (0x2D # exponential n) = Num (- int (hd (digits10 n)))"
proof -
  let ?d = "hd (digits10 n)"
  from exponential_shape [OF assms] obtain c rest
    where ex: "exponential n = digit_char ?d # c # rest" and c: "c = 0x2E \<or> c = 0x65"
    by blast
  have lt: "\<forall>d\<in>set [?d]. d < 10"
    using digits10_lt10 [of ?d n] digits10_nonempty [of n] by simp
  have d0: "?d \<noteq> 0" using digits10_hd [OF assms] by simp
  have rest: "c # rest = [] \<or> \<not> is_radix_digit 10 (hd (c # rest))"
    using c by (auto simp: is_radix_digit_def digit_value_def)
  have nohex: "\<not> hex_prefix (map digit_char [?d] @ c # rest)"
    using d0 lt by (simp add: hex_prefix_def digit_char_zero)
  from lt have "\<bar>int ?d\<bar> < 10 ^ 21" by simp
  then have small: "read_number (int ?d) = Num (int ?d)" "read_number (- int ?d) = Num (- int ?d)"
    by (simp_all add: read_number_small)
  from parseInt_string_digits [OF _ lt rest nohex]
  show "parseInt_string (exponential n) = Num (int ?d)"
    and "parseInt_string (0x2D # exponential n) = Num (- int ?d)"
    by (simp_all add: ex small)
qed

lemma parseInt_small:
  assumes "\<bar>n\<bar> < 10 ^ 21"
  shows "parseInt (JNum (Num n)) = Num n"
proof (cases "n < 0")
  case True
  with assms have "nat (- n) < 10 ^ 21" by (simp add: nat_less_iff)
  moreover from assms have "read_number n = Num n" by (rule read_number_small)
  ultimately show ?thesis using True
    by (simp add: parseInt_def NumberToString_pos_def parseInt_string_decimal)
next
  case False
  with assms have "nat n < 10 ^ 21" by (simp add: nat_less_iff)
  moreover from assms have "read_number n = Num n" by (rule read_number_small)
  ultimately show ?thesis using False
    by (simp add: parseInt_def NumberToString_pos_def parseInt_string_decimal)
qed


lemma parseInt_large:
  assumes "10 ^ 21 \<le> n"
  shows "\<exists>d. parseInt (JNum (Num n)) = Num d \<and> 1 \<le> d \<and> d \<le> 9"
proof -
  let ?d = "hd (digits10 (shortest (nat n)))"
  from assms have big: "\<not> nat n < 10 ^ 21" and nn: "\<not> n < 0" and "0 < nat n"
    by (simp_all add: nat_less_iff)
  then have pos: "0 < shortest (nat n)" by (simp add: shortest_pos)
  have "?d < 10"
    using digits10_lt10 [of ?d "shortest (nat n)"] digits10_nonempty [of "shortest (nat n)"]
    by simp
  with digits10_hd [OF pos] big nn show ?thesis
    by (simp add: parseInt_def NumberToString_pos_def parseInt_string_exponential [OF pos])
qed

lemma parseInt_string_cases:
  "parseInt_string t = NaN \<or> parseInt_string t = PInf \<or> parseInt_string t = NInf
   \<or> (\<exists>n. parseInt_string t = Num n)"
  using read_number_cases by (auto simp: parseInt_string_def Let_def)

lemma parseInt_cases:
  "parseInt v = NaN \<or> parseInt v = PInf \<or> parseInt v = NInf \<or> (\<exists>n. parseInt v = Num n)"
  unfolding parseInt_def by (rule parseInt_string_cases)

lemma digits10_numeral:
  "digits10 (numeral k) =
     (if (numeral k :: nat) < 10 then [numeral k]
      else digits10 (numeral k div 10) @ [numeral k mod 10])"
  by (rule digits10.simps)

lemma digits10_0: "digits10 0 = [0]"
  by (simp add: digits10.simps)

lemma digits10_1: "digits10 1 = [1]"
  by (simp add: digits10.simps)

lemma digits10_Suc0: "digits10 (Suc 0) = [Suc 0]"
  by (simp add: digits10.simps)

lemma digits10_1e21:
  "digits10 1000000000000000000000 =
     [1, 0, 0, 0, 0, 0, 0, 0, 0, 0, 0, 0, 0, 0, 0, 0, 0, 0, 0, 0, 0, 0]"
  by (simp add: digits10_numeral digits10_1 digits10_Suc0)

lemma reads_as_refl: "reads_as v v"
  by (simp add: reads_as_def)

lemma shortest_1e21: "shortest 1000000000000000000000 = 1000000000000000000000"
proof -
  have "candidate 1000000000000000000000 22 1 = Some 1000000000000000000000"
    by (simp add: candidate_def Let_def reads_as_refl)
  then have "shortest_from 1000000000000000000000 22 1 = 1000000000000000000000"
    by (subst shortest_from.simps) simp
  moreover have "length (digits10 1000000000000000000000) = 22"
    by (simp add: digits10_1e21)
  ultimately show ?thesis by (simp only: shortest_def)
qed

lemma NumberToString_1e21: "NumberToString (Num 1000000000000000000000) = lit ''1e+21''"
proof -
  let ?ds = "[1, 0, 0, 0, 0, 0, 0, 0, 0, 0, 0, 0, 0, 0, 0, 0, 0, 0, 0, 0, 0, 0] :: nat list"
  have s: "rev (dropWhile (\<lambda>d. d = 0) (rev ?ds)) = [1]"
    by simp
  have len: "length ?ds - 1 = 21"
    by simp
  have "decimal 21 = lit ''21''"
    by (simp add: decimal_def digits10_numeral digit_char_def lit_def)
  then have e: "decimal (length ?ds - 1) = lit ''21''"
    by (simp only: len)
  have "exponential 1000000000000000000000 = lit ''1e+21''"
    unfolding exponential_def Let_def digits10_1e21 s e
    by (simp add: digit_char_def lit_def)
  then show ?thesis
    by (simp add: NumberToString_pos_def shortest_1e21)
qed

lemma parseInt_string_1e21: "parseInt_string (lit ''1e+21'') = Num 1"
  by (simp add: parseInt_string_def Let_def trimStart_def isWhiteSpace_def lit_def
      is_radix_digit_def digit_value_def radix_value_def hex_prefix_def read_number_small)

lemma parseInt_1e21: "parseInt (JNum (Num 1000000000000000000000)) = Num 1"
  using parseInt_string_1e21 by (simp only: parseInt_def ToString.simps NumberToString_1e21)

section \<open>Numbers that are not integers\<close>



















section \<open>Pagination parameters\<close>

lemma page_clamp:
  "Math_max (Num 1) (js_or (parseInt v) (Num 1)) = PInf
   \<or> (\<exists>n. Math_max (Num 1) (js_or (parseInt v) (Num 1)) = Num n \<and> 1 \<le> n)"
  using parseInt_cases [of v] by (auto simp: js_or_def)

lemma limit_clamp:
  "\<exists>n. Math_min (Num 100) (Math_max (Num 1) (js_or (parseInt v) (Num d))) = Num n
         \<and> 1 \<le> n \<and> n \<le> 100"
  using parseInt_cases [of v] by (auto simp: js_or_def)

lemma validatePagination_range:
  "\<exists>l. limit (validatePagination x y) = Num l \<and> 1 \<le> l \<and> l \<le> 100"
  "page (validatePagination x y) = PInf
   \<or> (\<exists>p. page (validatePagination x y) = Num p \<and> 1 \<le> p)"
  using page_clamp [of x] limit_clamp [of y 50] by (auto simp: validatePagination_def)

text \<open>
  C1, as amended. For every integer \<open>page\<close> with \<open>1 \<le> page < 10 ^ 21\<close> and every
  integer \<open>limit\<close> in \<open>[1, 100]\<close>, \<open>validatePagination(page, limit)\<close> returns exactly
  \<open>{page, limit}\<close>.
\<close>

theorem validatePagination_identity:
  assumes "1 \<le> p" and "p < 10 ^ 21" and "1 \<le> l" and "l \<le> 100"
  shows "validatePagination (JNum (Num p)) (JNum (Num l)) = \<lparr>page = Num p, limit = Num l\<rparr>"
proof -
  from assms have "parseInt (JNum (Num p)) = Num p" and "parseInt (JNum (Num l)) = Num l"
    by (simp_all add: parseInt_small)
  with assms show ?thesis
    by (simp add: validatePagination_def js_or_def)
qed

theorem validatePagination_identity_witness:
  "validatePagination (JNum (Num 3)) (JNum (Num 20)) = \<lparr>page = Num 3, limit = Num 20\<rparr>"
  using validatePagination_identity [of 3 20] by simp

text \<open>
  C1 as it is written fails for an integer page from \<open>10 ^ 21\<close> on: \<open>parseInt\<close> reads
  the text \<open>1e+21\<close> of the number up to the \<open>e\<close>, and the page becomes 1.
\<close>

theorem validatePagination_identity_counterexample:
  "validatePagination (JNum (Num (10 ^ 21))) (JNum (Num 50)) = \<lparr>page = Num 1, limit = Num 50\<rparr>
   \<and> validatePagination (JNum (Num (10 ^ 21))) (JNum (Num 50))
       \<noteq> \<lparr>page = Num (10 ^ 21), limit = Num 50\<rparr>"
  by (simp add: validatePagination_def parseInt_1e21 parseInt_small js_or_def)





text \<open>
  C10. The number 0 counts as missing: as a page it gives 1, and as a limit it gives
  the default 50, not the lower bound 1, because the parsed 0 is falsy and \<open>||\<close>
  replaces it before the clamp.
\<close>

theorem validatePagination_zero:
  "page (validatePagination (JNum (Num 0)) y) = Num 1
   \<and> limit (validatePagination x (JNum (Num 0))) = Num 50
   \<and> limit (validatePagination x (JNum (Num 0))) \<noteq> Num 1
   \<and> parseInt (JNum (Num 0)) = Num 0
   \<and> js_or (Num 0) (Num 50) = Num 50"
proof -
  have "parseInt (JNum (Num 0)) = Num 0" by (simp add: parseInt_small)
  then show ?thesis by (simp add: validatePagination_def js_or_def)
qed

section \<open>The search term\<close>

lemma rev_dropWhile_takeWhile:
  "rev (dropWhile P (rev xs)) @ rev (takeWhile P (rev xs)) = xs"
proof -
  have "rev (takeWhile P (rev xs) @ dropWhile P (rev xs)) = rev (rev xs)"
    by (simp only: takeWhile_dropWhile_id)
  then show ?thesis
    by (simp only: rev_append rev_rev_ident)
qed

lemma trim_decomposition:
  "\<exists>l r. s = l @ trim s @ r \<and> (\<forall>c\<in>set l. isWhiteSpace c) \<and> (\<forall>c\<in>set r. isWhiteSpace c)"
proof -
  let ?t = "dropWhile isWhiteSpace s"
  let ?l = "takeWhile isWhiteSpace s"
  let ?r = "rev (takeWhile isWhiteSpace (rev ?t))"
  have "trim s @ ?r = ?t"
    unfolding trim_def trimEnd_def trimStart_def by (rule rev_dropWhile_takeWhile)
  then have "?l @ trim s @ ?r = ?l @ ?t" by (rule arg_cong)
  then have "s = ?l @ trim s @ ?r" by (simp only: takeWhile_dropWhile_id)
  moreover have "\<forall>c\<in>set ?l. isWhiteSpace c" by (auto dest: set_takeWhileD)
  moreover have "\<forall>c\<in>set ?r. isWhiteSpace c" by (auto dest: set_takeWhileD)
  ultimately show ?thesis by blast
qed

lemma trim_ends:
  assumes "trim s \<noteq> []"
  shows "\<not> isWhiteSpace (hd (trim s))" and "\<not> isWhiteSpace (last (trim s))"
proof -
  let ?t = "dropWhile isWhiteSpace s"
  let ?u = "dropWhile isWhiteSpace (rev ?t)"
  have ts: "trim s = rev ?u" by (simp add: trim_def trimEnd_def trimStart_def)
  with assms have u: "?u \<noteq> []" by simp
  then have "\<not> isWhiteSpace (hd ?u)" by (rule hd_dropWhile)
  with u show "\<not> isWhiteSpace (last (trim s))" by (simp add: ts last_rev)
  have t: "?t \<noteq> []"
  proof
    assume "?t = []"
    then have "?u = []" by (simp only: rev.simps dropWhile.simps)
    with u show False ..
  qed
  then have nw: "\<not> isWhiteSpace (hd ?t)" by (rule hd_dropWhile)
  have "rev ?u @ rev (takeWhile isWhiteSpace (rev ?t)) = ?t"
    by (rule rev_dropWhile_takeWhile)
  then have "hd (rev ?u @ rev (takeWhile isWhiteSpace (rev ?t))) = hd ?t" by (rule arg_cong)
  with u have "hd (rev ?u) = hd ?t" by simp
  with nw show "\<not> isWhiteSpace (hd (trim s))" by (simp add: ts)
qed

lemma sanitizeSearchTerm_string:
  "sanitizeSearchTerm (JStr s) = take 100 (filter (\<lambda>c. c \<noteq> 0x3C \<and> c \<noteq> 0x3E) (trim s))"
  by (cases s) (simp_all add: sanitizeSearchTerm_def trim_def trimStart_def trimEnd_def)

lemma sanitizeSearchTerm_not_string: "(\<forall>s. v \<noteq> JStr s) \<Longrightarrow> sanitizeSearchTerm v = []"
  by (cases v) (simp_all add: sanitizeSearchTerm_def)

lemma sanitizeSearchTerm_bounds:
  "length (sanitizeSearchTerm v) \<le> 100 \<and> 0x3C \<notin> set (sanitizeSearchTerm v)
   \<and> 0x3E \<notin> set (sanitizeSearchTerm v)"
proof (cases v)
  case (JStr s)
  have "set (take 100 (filter (\<lambda>c. c \<noteq> 0x3C \<and> c \<noteq> 0x3E) (trim s)))
          \<subseteq> set (filter (\<lambda>c. c \<noteq> 0x3C \<and> c \<noteq> 0x3E) (trim s))"
    by (rule set_take_subset)
  then show ?thesis unfolding JStr sanitizeSearchTerm_string by auto
qed (simp_all add: sanitizeSearchTerm_def)

text \<open>
  C3. \<open>sanitizeSearchTerm\<close> is a function of its argument alone, defined on every
  value. On a value that is not a string it gives the empty string; on a string it
  gives the string with the white space at both ends dropped, then every \<open><\<close> and \<open>>\<close>
  removed, then cut to its first 100 code units. So the result never has more than 100
  code units and never holds an angle bracket; what \<open>trim\<close> drops is white space only.
  \<open>sanitizeSearchTerm("<script>a</script>")\<close> is \<open>"scripta/script"\<close> and
  \<open>sanitizeSearchTerm(null)\<close> is \<open>""\<close>.
\<close>

theorem sanitizeSearchTerm_spec:
  "(\<forall>v. (\<forall>s. v \<noteq> JStr s) \<longrightarrow> sanitizeSearchTerm v = [])
   \<and> (\<forall>s. sanitizeSearchTerm (JStr s) =
            take 100 (filter (\<lambda>c. c \<noteq> 0x3C \<and> c \<noteq> 0x3E) (trim s)))
   \<and> (\<forall>s. \<exists>l r. s = l @ trim s @ r \<and> (\<forall>c\<in>set l. isWhiteSpace c)
             \<and> (\<forall>c\<in>set r. isWhiteSpace c))
   \<and> (\<forall>s. trim s \<noteq> [] \<longrightarrow> \<not> isWhiteSpace (hd (trim s)) \<and> \<not> isWhiteSpace (last (trim s)))
   \<and> (\<forall>v. length (sanitizeSearchTerm v) \<le> 100 \<and> 0x3C \<notin> set (sanitizeSearchTerm v)
             \<and> 0x3E \<notin> set (sanitizeSearchTerm v))
   \<and> sanitizeSearchTerm (JStr (lit ''<script>a</script>'')) = lit ''scripta/script''
   \<and> sanitizeSearchTerm JNull = []"
proof (intro conjI allI impI)
  show "sanitizeSearchTerm (JStr (lit ''<script>a</script>'')) = lit ''scripta/script''"
    by (simp add: sanitizeSearchTerm_string trim_def trimStart_def trimEnd_def
        isWhiteSpace_def lit_def)
  show "sanitizeSearchTerm JNull = []"
    by (simp add: sanitizeSearchTerm_def)
qed (simp_all add: sanitizeSearchTerm_not_string sanitizeSearchTerm_string trim_decomposition
      trim_ends sanitizeSearchTerm_bounds)

theorem sanitizeSearchTerm_spec_witness:
  "sanitizeSearchTerm (JBool True) = []
   \<and> trim (lit '' <b> x '') = lit ''<b> x'' \<and> lit ''<b> x'' \<noteq> []
   \<and> \<not> isWhiteSpace (hd (trim (lit '' <b> x ''))) \<and> \<not> isWhiteSpace (last (trim (lit '' <b> x '')))
   \<and> sanitizeSearchTerm (JStr (lit '' <b> x '')) = lit ''b x''"
proof -
  have t: "trim (lit '' <b> x '') = lit ''<b> x''"
    by (simp add: trim_def trimStart_def trimEnd_def isWhiteSpace_def lit_def)
  have n: "lit ''<b> x'' \<noteq> []" by (simp add: lit_def)
  from sanitizeSearchTerm_spec
  have a: "(\<forall>s. JBool True \<noteq> JStr s) \<longrightarrow> sanitizeSearchTerm (JBool True) = []"
    and b: "sanitizeSearchTerm (JStr (lit '' <b> x '')) =
            take 100 (filter (\<lambda>c. c \<noteq> 0x3C \<and> c \<noteq> 0x3E) (trim (lit '' <b> x '')))"
    and c: "trim (lit '' <b> x '') \<noteq> [] \<longrightarrow> \<not> isWhiteSpace (hd (trim (lit '' <b> x '')))
            \<and> \<not> isWhiteSpace (last (trim (lit '' <b> x '')))"
    by blast+
  from b have "sanitizeSearchTerm (JStr (lit '' <b> x '')) = lit ''b x''"
    unfolding t by (simp add: lit_def)
  with a c t n show ?thesis by simp
qed

section \<open>Lookup by identifier\<close>

lemma getDigimonById_issued: "snd (getDigimonById db i) = [SelectById i]"
  by (simp add: getDigimonById_def Let_def)

lemma getDigimonById_result:
  "fst (getDigimonById db i) =
     (case error (select_by_id db i) of
        None \<Rightarrow> Inr (formatDigimon (data (select_by_id db i)))
      | Some e \<Rightarrow>
          if code e \<noteq> lit ''PGRST116'' then Inl (Error (lit ''Erro ao buscar Digimon por ID.''))
          else Inr (formatDigimon (data (select_by_id db i))))"
  by (simp add: getDigimonById_def Let_def split: option.splits)

lemma id_handler_absent:
  "fst (getDigimonById db (params req (lit ''id''))) = Inr None \<Longrightarrow>
   id_handler db req = (Reply 404 not_found, [SelectById (params req (lit ''id''))])"
  using getDigimonById_issued [of db "params req (lit ''id'')"]
  by (cases "getDigimonById db (params req (lit ''id''))") (simp add: id_handler_def)

lemma not_found_envelope:
  "not_found = ErrorEnvelope False (lit ''Digimon n'' @ [0xE3] @ lit ''o encontrado'') (Some 404)"
  by (simp add: not_found_def errorResponse_def)

text \<open>
  C4. \<open>getDigimonById\<close> returns the formatted record when the client gives a row; when
  the client reports the error code \<open>PGRST116\<close> (no rows) it returns \<open>null\<close> and throws
  nothing; on any other error of the client it throws its own \<open>Error\<close>. When the lookup
  returns \<open>null\<close> the route answers with status 404 and the envelope
  \<open>{success: false, error: "Digimon nao encontrado", statusCode: 404}\<close>, the first
  \<open>a\<close> of \<open>nao\<close> carrying a tilde (the code unit \<open>0xE3\<close>).
\<close>

theorem getDigimonById_outcomes:
  "(\<forall>row. data (select_by_id db i) = Some row \<and> error (select_by_id db i) = None \<longrightarrow>
      fst (getDigimonById db i) =
        Inr (Some \<lparr>digimon_id = digimon_id row, number = number row, name = name row,
                   stage = stage row, attribute = attribute row, image_url = image_url row\<rparr>))
   \<and> (\<forall>e. error (select_by_id db i) = Some e \<and> code e = lit ''PGRST116''
          \<and> data (select_by_id db i) = None \<longrightarrow>
        fst (getDigimonById db i) = Inr None)
   \<and> (\<forall>e. error (select_by_id db i) = Some e \<and> code e \<noteq> lit ''PGRST116'' \<longrightarrow>
        fst (getDigimonById db i) = Inl (Error (lit ''Erro ao buscar Digimon por ID.'')))
   \<and> (fst (getDigimonById db (params req (lit ''id''))) = Inr None \<longrightarrow>
        fst (id_handler db req) =
          Reply 404 (ErrorEnvelope False (lit ''Digimon n'' @ [0xE3] @ lit ''o encontrado'')
            (Some 404)))"
proof (intro conjI allI impI)
  fix row
  assume "data (select_by_id db i) = Some row \<and> error (select_by_id db i) = None"
  then show "fst (getDigimonById db i) =
      Inr (Some \<lparr>digimon_id = digimon_id row, number = number row, name = name row,
                 stage = stage row, attribute = attribute row, image_url = image_url row\<rparr>)"
    by (simp add: getDigimonById_result)
next
  fix e
  assume "error (select_by_id db i) = Some e \<and> code e = lit ''PGRST116''
      \<and> data (select_by_id db i) = None"
  then show "fst (getDigimonById db i) = Inr None"
    by (simp add: getDigimonById_result)
next
  fix e
  assume "error (select_by_id db i) = Some e \<and> code e \<noteq> lit ''PGRST116''"
  then show "fst (getDigimonById db i) = Inl (Error (lit ''Erro ao buscar Digimon por ID.''))"
    by (simp add: getDigimonById_result)
next
  assume "fst (getDigimonById db (params req (lit ''id''))) = Inr None"
  from id_handler_absent [OF this]
  show "fst (id_handler db req) =
      Reply 404 (ErrorEnvelope False (lit ''Digimon n'' @ [0xE3] @ lit ''o encontrado'') (Some 404))"
    by (simp add: not_found_envelope)
qed

lemma sample_by_id:
  "select_by_id sample_db (JNum (Num 1)) = answer agumon"
  "select_by_id sample_db (JNum (Num 2)) = answer greymon"
  "select_by_id sample_db (JNum (Num 7)) = failure no_rows"
  by (simp_all add: sample_db_def)

lemma request_of_id: "params (request_of q [(lit ''id'', v)]) (lit ''id'') = v"
  by (simp add: request_of_def)

theorem getDigimonById_outcomes_witness:
  "fst (getDigimonById sample_db (JNum (Num 1))) =
     Inr (Some \<lparr>digimon_id = JNum (Num 1), number = JNum (Num 21), name = JStr (lit ''Agumon''),
                stage = JStr (lit ''III''), attribute = JStr (lit ''Vaccine''),
                image_url = JStr (lit ''agumon.png'')\<rparr>)
   \<and> fst (getDigimonById sample_db (JNum (Num 7))) = Inr None
   \<and> fst (getDigimonById (sample_db\<lparr>select_by_id := \<lambda>i. failure timeout_error\<rparr>) (JNum (Num 1)))
       = Inl (Error (lit ''Erro ao buscar Digimon por ID.''))
   \<and> fst (id_handler sample_db (request_of [] [(lit ''id'', JNum (Num 7))])) =
       Reply 404 (ErrorEnvelope False (lit ''Digimon n'' @ [0xE3] @ lit ''o encontrado'') (Some 404))"
proof -
  let ?req = "request_of [] [(lit ''id'', JNum (Num 7))]"
  let ?bad = "sample_db\<lparr>select_by_id := \<lambda>i. failure timeout_error\<rparr>"
  have row: "data (select_by_id sample_db (JNum (Num 1))) = Some agumon
      \<and> error (select_by_id sample_db (JNum (Num 1))) = None"
    by (simp add: sample_by_id answer_def)
  have none: "error (select_by_id sample_db (JNum (Num 7))) = Some no_rows
      \<and> code no_rows = lit ''PGRST116'' \<and> data (select_by_id sample_db (JNum (Num 7))) = None"
    by (simp add: sample_by_id failure_def no_rows_def)
  have bad: "error (select_by_id ?bad (JNum (Num 1))) = Some timeout_error
      \<and> code timeout_error \<noteq> lit ''PGRST116''"
    by (simp add: failure_def timeout_error_def lit_def)
  from getDigimonById_outcomes [of sample_db "JNum (Num 1)" ?req] row
  have 1: "fst (getDigimonById sample_db (JNum (Num 1))) =
      Inr (Some \<lparr>digimon_id = digimon_id agumon, number = number agumon, name = name agumon,
                 stage = stage agumon, attribute = attribute agumon,
                 image_url = image_url agumon\<rparr>)"
    by blast
  from getDigimonById_outcomes [of sample_db "JNum (Num 7)" ?req] none
  have 2: "fst (getDigimonById sample_db (JNum (Num 7))) = Inr None"
    by blast
  from getDigimonById_outcomes [of ?bad "JNum (Num 1)" ?req] bad
  have 3: "fst (getDigimonById ?bad (JNum (Num 1))) =
      Inl (Error (lit ''Erro ao buscar Digimon por ID.''))"
    by blast
  from 2 have "fst (getDigimonById sample_db (params ?req (lit ''id''))) = Inr None"
    by (simp only: request_of_id)
  with getDigimonById_outcomes [of sample_db "JNum (Num 7)" ?req]
  have 4: "fst (id_handler sample_db ?req) =
      Reply 404 (ErrorEnvelope False (lit ''Digimon n'' @ [0xE3] @ lit ''o encontrado'') (Some 404))"
    by blast
  from 1 2 3 4 show ?thesis by (simp add: agumon_def)
qed

section \<open>Evolution data\<close>

lemma getDigimonById_run:
  "getDigimonById db i = (fst (getDigimonById db i), [SelectById i])"
  using getDigimonById_issued [of db i] by (simp add: prod_eq_iff)

lemma getEvolutionData_absent_run:
  assumes "fst (getDigimonById db i) = Inr None"
  shows "getEvolutionData db i = (Inr NoDigimon, [SelectById i])"
proof -
  have "getDigimonById db i = (Inr None, [SelectById i])"
    using getDigimonById_run [of db i] assms by simp
  then show ?thesis by (simp add: getEvolutionData_def)
qed

lemma getDigimonById_same:
  "select_by_id db' i = select_by_id db i \<Longrightarrow> getDigimonById db' i = getDigimonById db i"
  by (simp add: getDigimonById_def)

text \<open>
  C5. When the lookup of the base creature returns \<open>null\<close>, \<open>getEvolutionData\<close> returns
  \<open>{ digimon: null }\<close> and the only query it has issued is that lookup: none on the
  evolutions or the requirements. Any client that answers the lookup in the same way
  gives the same run, whatever it holds otherwise.
\<close>

theorem getEvolutionData_short_circuit:
  assumes "fst (getDigimonById db i) = Inr None"
  shows "getEvolutionData db i = (Inr NoDigimon, [SelectById i])
    \<and> evolution_digimon NoDigimon = None
    \<and> SelectEvolvesTo i \<notin> set (snd (getEvolutionData db i))
    \<and> SelectEvolvesFrom i \<notin> set (snd (getEvolutionData db i))
    \<and> SelectRequirements i \<notin> set (snd (getEvolutionData db i))
    \<and> (\<forall>db'. select_by_id db' i = select_by_id db i \<longrightarrow>
          getEvolutionData db' i = getEvolutionData db i)"
proof -
  have run: "getEvolutionData db i = (Inr NoDigimon, [SelectById i])"
    by (rule getEvolutionData_absent_run [OF assms])
  have same: "getEvolutionData db' i = getEvolutionData db i"
    if "select_by_id db' i = select_by_id db i" for db'
  proof -
    from that have "getDigimonById db' i = getDigimonById db i"
      by (rule getDigimonById_same)
    with assms have "fst (getDigimonById db' i) = Inr None" by simp
    then have "getEvolutionData db' i = (Inr NoDigimon, [SelectById i])"
      by (rule getEvolutionData_absent_run)
    with run show ?thesis by simp
  qed
  show ?thesis
  proof (intro conjI allI impI)
    show "getEvolutionData db i = (Inr NoDigimon, [SelectById i])" by (rule run)
    show "evolution_digimon NoDigimon = None" by simp
    show "SelectEvolvesTo i \<notin> set (snd (getEvolutionData db i))" by (simp add: run)
    show "SelectEvolvesFrom i \<notin> set (snd (getEvolutionData db i))" by (simp add: run)
    show "SelectRequirements i \<notin> set (snd (getEvolutionData db i))" by (simp add: run)
    show "getEvolutionData db' i = getEvolutionData db i"
      if "select_by_id db' i = select_by_id db i" for db'
      using that by (rule same)
  qed
qed

theorem getEvolutionData_short_circuit_witness:
  "fst (getDigimonById sample_db (JNum (Num 7))) = Inr None
   \<and> getEvolutionData sample_db (JNum (Num 7)) = (Inr NoDigimon, [SelectById (JNum (Num 7))])
   \<and> getEvolutionData (sample_db\<lparr>select_requirements := \<lambda>i. failure timeout_error\<rparr>)
        (JNum (Num 7)) = getEvolutionData sample_db (JNum (Num 7))"
proof -
  let ?db' = "sample_db\<lparr>select_requirements := \<lambda>i. failure timeout_error\<rparr>"
  have a: "fst (getDigimonById sample_db (JNum (Num 7))) = Inr None"
    by (simp add: getDigimonById_result sample_by_id failure_def no_rows_def)
  have b: "select_by_id ?db' (JNum (Num 7)) = select_by_id sample_db (JNum (Num 7))"
    by simp
  note t = getEvolutionData_short_circuit [OF a]
  from t have 1: "getEvolutionData sample_db (JNum (Num 7)) =
      (Inr NoDigimon, [SelectById (JNum (Num 7))])"
    by (rule conjunct1)
  from t have "\<forall>db'. select_by_id db' (JNum (Num 7)) = select_by_id sample_db (JNum (Num 7)) \<longrightarrow>
      getEvolutionData db' (JNum (Num 7)) = getEvolutionData sample_db (JNum (Num 7))"
    by (elim conjE)
  then have "select_by_id ?db' (JNum (Num 7)) = select_by_id sample_db (JNum (Num 7)) \<longrightarrow>
      getEvolutionData ?db' (JNum (Num 7)) = getEvolutionData sample_db (JNum (Num 7))"
    by (rule spec)
  with b have 2: "getEvolutionData ?db' (JNum (Num 7)) = getEvolutionData sample_db (JNum (Num 7))"
    by (rule rev_mp)
  from a 1 2 show ?thesis by (intro conjI)
qed

lemma getEvolutionData_present:
  assumes "fst (getDigimonById db i) = Inr (Some d)"
  shows "getEvolutionData db i =
    (if error (select_evolves_to db i) \<noteq> None \<or> error (select_evolves_from db i) \<noteq> None
        \<or> error (select_requirements db i) \<noteq> None
     then (Inl (Error (lit ''Erro ao buscar dados de evolu'' @ [0xE7, 0xE3] @ lit ''o.'')),
           [SelectById i, SelectEvolvesTo i, SelectEvolvesFrom i, SelectRequirements i])
     else (case (data (select_evolves_to db i), data (select_evolves_from db i)) of
             (Some es, Some fs) \<Rightarrow>
               (Inr (EvolutionData d
                      (map (\<lambda>e. formatDigimon (to_digimon e)) es)
                      (map (\<lambda>e. formatDigimon (from_digimon e)) fs)
                      (data (select_requirements db i))),
                [SelectById i, SelectEvolvesTo i, SelectEvolvesFrom i, SelectRequirements i])
           | _ \<Rightarrow> (Inl TypeError,
                [SelectById i, SelectEvolvesTo i, SelectEvolvesFrom i, SelectRequirements i])))"
proof -
  have "getDigimonById db i = (Inr (Some d), [SelectById i])"
    using getDigimonById_run [of db i] assms by simp
  then show ?thesis
    by (simp add: getEvolutionData_def Let_def split: option.splits)
qed

text \<open>
  C6. When the base creature exists and one of the three further queries (forward
  edges, backward edges, requirements) reports an error, \<open>getEvolutionData\<close> throws its
  \<open>Error\<close> and returns nothing. When none reports an error and both edge queries give
  their rows, it returns the base creature, the formatted targets of the forward edges,
  the formatted sources of the backward edges, and the requirement rows as the client
  gave them.
\<close>

theorem getEvolutionData_fan_out:
  assumes "fst (getDigimonById db i) = Inr (Some d)"
  shows "(error (select_evolves_to db i) \<noteq> None \<or> error (select_evolves_from db i) \<noteq> None
          \<or> error (select_requirements db i) \<noteq> None \<longrightarrow>
        fst (getEvolutionData db i) =
          Inl (Error (lit ''Erro ao buscar dados de evolu'' @ [0xE7, 0xE3] @ lit ''o.'')))
    \<and> (\<forall>es fs. error (select_evolves_to db i) = None \<and> error (select_evolves_from db i) = None
          \<and> error (select_requirements db i) = None
          \<and> data (select_evolves_to db i) = Some es \<and> data (select_evolves_from db i) = Some fs \<longrightarrow>
        fst (getEvolutionData db i) =
          Inr (EvolutionData d
                (map (\<lambda>e. formatDigimon (to_digimon e)) es)
                (map (\<lambda>e. formatDigimon (from_digimon e)) fs)
                (data (select_requirements db i))))"
proof (intro conjI allI impI)
  assume "error (select_evolves_to db i) \<noteq> None \<or> error (select_evolves_from db i) \<noteq> None
      \<or> error (select_requirements db i) \<noteq> None"
  then show "fst (getEvolutionData db i) =
      Inl (Error (lit ''Erro ao buscar dados de evolu'' @ [0xE7, 0xE3] @ lit ''o.''))"
    by (simp only: getEvolutionData_present [OF assms] if_True fst_conv)
next
  fix es fs
  assume "error (select_evolves_to db i) = None \<and> error (select_evolves_from db i) = None
      \<and> error (select_requirements db i) = None
      \<and> data (select_evolves_to db i) = Some es \<and> data (select_evolves_from db i) = Some fs"
  then show "fst (getEvolutionData db i) =
      Inr (EvolutionData d
            (map (\<lambda>e. formatDigimon (to_digimon e)) es)
            (map (\<lambda>e. formatDigimon (from_digimon e)) fs)
            (data (select_requirements db i)))"
    by (simp add: getEvolutionData_present [OF assms])
qed

lemma sample_agumon_found:
  "fst (getDigimonById sample_db (JNum (Num 1))) = Inr (formatDigimon (Some agumon))"
  by (simp add: getDigimonById_result sample_by_id answer_def)

lemma sample_greymon_found:
  "fst (getDigimonById sample_db (JNum (Num 2))) = Inr (formatDigimon (Some greymon))"
  by (simp add: getDigimonById_result sample_by_id answer_def)

theorem getEvolutionData_fan_out_witness:
  "fst (getDigimonById sample_db (JNum (Num 2))) = Inr (formatDigimon (Some greymon))
   \<and> error (select_requirements sample_db (JNum (Num 2))) \<noteq> None
   \<and> fst (getEvolutionData sample_db (JNum (Num 2))) =
       Inl (Error (lit ''Erro ao buscar dados de evolu'' @ [0xE7, 0xE3] @ lit ''o.''))
   \<and> fst (getDigimonById sample_db (JNum (Num 1))) = Inr (formatDigimon (Some agumon))
   \<and> fst (getEvolutionData sample_db (JNum (Num 1))) =
       Inr (EvolutionData (the (formatDigimon (Some agumon))) [formatDigimon (Some greymon)] []
             (Some [[(lit ''level'', JNum (Num 11))]]))"
proof -
  let ?one = "JNum (Num 1)" and ?two = "JNum (Num 2)"
  have g: "fst (getDigimonById sample_db ?two) = Inr (Some (the (formatDigimon (Some greymon))))"
    by (simp add: sample_greymon_found)
  have a: "fst (getDigimonById sample_db ?one) = Inr (Some (the (formatDigimon (Some agumon))))"
    by (simp add: sample_agumon_found)
  have e: "error (select_requirements sample_db ?two) \<noteq> None"
    by (simp add: sample_db_def failure_def)
  then have e': "error (select_evolves_to sample_db ?two) \<noteq> None
      \<or> error (select_evolves_from sample_db ?two) \<noteq> None
      \<or> error (select_requirements sample_db ?two) \<noteq> None"
    by (intro disjI2)
  have ok: "error (select_evolves_to sample_db ?one) = None
      \<and> error (select_evolves_from sample_db ?one) = None
      \<and> error (select_requirements sample_db ?one) = None
      \<and> data (select_evolves_to sample_db ?one) = Some [\<lparr>to_digimon = Some greymon\<rparr>]
      \<and> data (select_evolves_from sample_db ?one) = Some []"
    by (simp add: sample_db_def answer_def)
  have r: "data (select_requirements sample_db ?one) = Some [[(lit ''level'', JNum (Num 11))]]"
    by (simp add: sample_db_def answer_def)
  from getEvolutionData_fan_out [OF g, THEN conjunct1] e'
  have 1: "fst (getEvolutionData sample_db ?two) =
      Inl (Error (lit ''Erro ao buscar dados de evolu'' @ [0xE7, 0xE3] @ lit ''o.''))"
    by (rule mp)
  from getEvolutionData_fan_out [OF a, THEN conjunct2, rule_format, OF ok]
  have 2: "fst (getEvolutionData sample_db ?one) =
      Inr (EvolutionData (the (formatDigimon (Some agumon))) [formatDigimon (Some greymon)] []
            (Some [[(lit ''level'', JNum (Num 11))]]))"
    by (simp add: r)
  from sample_greymon_found e 1 sample_agumon_found 2 show ?thesis by (intro conjI)
qed

section \<open>The double quotient\<close>

lemma divide_round_error:
  assumes "0 < den"
  shows "2 * \<bar>int (divide_round num den) * int den - int num\<bar> \<le> int den"
proof -
  let ?f = "num div den" and ?r = "num mod den"
  have eq: "int num = int ?f * int den + int ?r"
    by (metis div_mult_mod_eq of_nat_add of_nat_mult)
  have r: "int ?r < int den" using assms by simp
  consider "2 * ?r < den" | "den < 2 * ?r" | "2 * ?r = den" by linarith
  then show ?thesis
  proof cases
    case 1
    then have "divide_round num den = ?f" by (simp add: divide_round_def Let_def)
    with eq 1 show ?thesis by simp
  next
    case 2
    then have "divide_round num den = ?f + 1" by (simp add: divide_round_def Let_def)
    then have "int (divide_round num den) * int den - int num = int den - int ?r"
      using eq by (simp add: algebra_simps)
    with 2 r show ?thesis by simp
  next
    case 3
    then have "divide_round num den = ?f \<or> divide_round num den = ?f + 1"
      by (simp add: divide_round_def Let_def)
    then show ?thesis
    proof
      assume "divide_round num den = ?f"
      with eq 3 show ?thesis by simp
    next
      assume "divide_round num den = ?f + 1"
      then have "int (divide_round num den) * int den - int num = int den - int ?r"
        using eq by (simp add: algebra_simps)
      with 3 r show ?thesis by simp
    qed
  qed
qed

lemma divide_round_scaled:
  fixes a b u :: nat
  assumes b: "0 < b" and bu: "b < 2 * u"
  shows "int (divide_round (a * u) b) div int u = int a div int b"
    and "- ((- int (divide_round (a * u) b)) div int u) = - ((- int a) div int b)"
proof -
  define M where "M = int (divide_round (a * u) b)"
  define k where "k = int a div int b"
  define r where "r = int a mod int b"
  define D where "D = M - k * int u"
  have u: "0 < int u" using b bu by simp
  have B: "0 < int b" using b by simp
  have a: "int a = k * int b + r" by (simp add: k_def r_def)
  have r: "0 \<le> r" "r < int b" using B by (simp_all add: r_def)
  have "2 * \<bar>M * int b - int (a * u)\<bar> \<le> int b"
    unfolding M_def by (rule divide_round_error [OF b])
  moreover have "M * int b - int (a * u) = D * int b - r * int u"
    by (simp add: D_def a algebra_simps)
  ultimately have err: "2 * \<bar>D * int b - r * int u\<bar> \<le> int b" by simp
  have M: "M = k * int u + D" by (simp add: D_def)
  show "int (divide_round (a * u) b) div int u = int a div int b"
    and "- ((- int (divide_round (a * u) b)) div int u) = - ((- int a) div int b)"
  proof -
    have "M div int u = k \<and> - ((- M) div int u) = - ((- int a) div int b)"
    proof (cases "r = 0")
      case True
      with err have e: "2 * \<bar>D * int b\<bar> \<le> int b" by simp
      have "D = 0"
      proof (rule ccontr)
        assume "D \<noteq> 0"
        then have "1 \<le> \<bar>D\<bar>" by simp
        then have "1 * int b \<le> \<bar>D\<bar> * int b" using B by (intro mult_right_mono) simp_all
        then have "int b \<le> \<bar>D * int b\<bar>" using B by (simp add: abs_mult)
        with e B show False by arith
      qed
      with M have "M = k * int u" by simp
      moreover from a True have "int a = k * int b" by simp
      moreover have "(- (k * int u)) div int u = - k"
        by (rule int_div_pos_eq [of _ _ "- k" 0]) (use u in simp_all)
      moreover have "(- (k * int b)) div int b = - k"
        by (rule int_div_pos_eq [of _ _ "- k" 0]) (use B in simp_all)
      ultimately show ?thesis using u B by simp
    next
      case False
      with r have rpos: "1 \<le> r" by simp
      then have "1 * int u \<le> r * int u" using u by (intro mult_right_mono) simp_all
      then have lo: "int u \<le> r * int u" by simp
      from r have "r \<le> int b - 1" by simp
      then have "r * int u \<le> (int b - 1) * int u" using u by (intro mult_right_mono) simp_all
      then have hi: "r * int u \<le> int b * int u - int u" by (simp add: algebra_simps)
      define X where "X = D * int b"
      define Y where "Y = r * int u"
      define Z where "Z = int b * int u"
      from bu have bu': "int b < 2 * int u" by simp
      from err have "2 * \<bar>X - Y\<bar> \<le> int b" by (simp only: X_def Y_def)
      with bu' have e: "\<bar>X - Y\<bar> < int u" by arith
      from lo hi have lo': "int u \<le> Y" and hi': "Y \<le> Z - int u" by (simp_all only: Y_def Z_def)
      from e lo' have "0 < X" by arith
      then have "0 < D * int b" by (simp only: X_def)
      with B have Dpos: "0 < D" by (simp add: zero_less_mult_iff)
      from e hi' have "X < Z" by arith
      then have "D * int b < int u * int b" by (simp only: X_def Z_def mult.commute)
      with B have Du: "D < int u" by (simp add: mult_less_cancel_right)
      have 1: "M div int u = k"
        by (rule int_div_pos_eq [of M "int u" k D]) (use M Dpos Du in \<open>simp_all add: algebra_simps\<close>)
      have "(- M) div int u = - k - 1"
        by (rule int_div_pos_eq [of "- M" "int u" "- k - 1" "int u - D"])
          (use M Dpos Du in \<open>simp_all add: algebra_simps\<close>)
      moreover have "(- int a) div int b = - k - 1"
        by (rule int_div_pos_eq [of "- int a" "int b" "- k - 1" "int b - r"])
          (use a r rpos in \<open>simp_all add: algebra_simps\<close>)
      ultimately show ?thesis using 1 by simp
    qed
    then show "int (divide_round (a * u) b) div int u = int a div int b"
      and "- ((- int (divide_round (a * u) b)) div int u) = - ((- int a) div int b)"
      by (simp_all add: M_def k_def)
  qed
qed

lemma bit_length_pos: "0 < n \<Longrightarrow> 0 < bit_length n"
  by (simp add: bit_length.simps [of n])

lemma quotient_exponent_le:
  assumes a: "0 < a" and b: "0 < b"
  shows "if 0 \<le> quotient_exponent a b then b * 2 ^ nat (quotient_exponent a b) \<le> a
         else b \<le> a * 2 ^ nat (- quotient_exponent a b)"
proof -
  define e where "e = int (bit_length a) - int (bit_length b)"
  let ?test = "if 0 \<le> e then b * 2 ^ nat e \<le> a else b \<le> a * 2 ^ nat (- e)"
  show ?thesis
  proof (cases ?test)
    case True
    then have qe: "quotient_exponent a b = e"
      unfolding quotient_exponent_def Let_def e_def [symmetric] by (rule if_P)
    show ?thesis unfolding qe by (rule True)
  next
    case False
    then have qe: "quotient_exponent a b = e - 1"
      unfolding quotient_exponent_def Let_def e_def [symmetric] by (rule if_not_P)
    from bit_length_pos [OF a] obtain la where la: "bit_length a = Suc la"
      by (cases "bit_length a") auto
    define lb where "lb = bit_length b"
    from bit_length_bounds [OF a] la have lo: "2 ^ la \<le> a" by simp
    from bit_length_bounds [OF b] have hi: "b < 2 ^ lb" by (simp add: lb_def)
    have e1: "e - 1 = int la - int lb" by (simp add: e_def la lb_def)
    show ?thesis
    proof (cases "lb \<le> la")
      case True
      then have n: "nat (e - 1) = la - lb" and nn: "0 \<le> e - 1" by (simp_all add: e1)
      from hi have "b * 2 ^ (la - lb) \<le> 2 ^ lb * 2 ^ (la - lb)" by simp
      also from True have "\<dots> = 2 ^ la" by (simp add: power_add [symmetric])
      finally have "b * 2 ^ (la - lb) \<le> a" using lo by simp
      with nn n show ?thesis by (simp only: qe if_True)
    next
      case False
      then have n: "nat (- (e - 1)) = lb - la" and nn: "\<not> 0 \<le> e - 1" by (simp_all add: e1)
      from False have "(2::nat) ^ lb = 2 ^ la * 2 ^ (lb - la)" by (simp add: power_add [symmetric])
      also from lo have "\<dots> \<le> a * 2 ^ (lb - la)" by simp
      finally have "b \<le> a * 2 ^ (lb - la)" using hi by simp
      with nn n show ?thesis by (simp only: qe if_False)
    qed
  qed
qed

lemma quotient_exponent_upper:
  assumes a: "a < 2 ^ 53" and b: "0 < b"
  shows "quotient_exponent a b \<le> 52"
proof -
  from a have "bit_length a \<le> 53" by (rule bit_length_le)
  moreover from bit_length_pos [OF b] have "1 \<le> bit_length b" by simp
  ultimately have "int (bit_length a) - int (bit_length b) \<le> 52" by simp
  then show ?thesis by (simp add: quotient_exponent_def Let_def)
qed

lemma quotient_scale:
  assumes a: "0 < a" "a < 2 ^ 53" and b: "0 < b" "b < 2 ^ 1024"
  shows "max (quotient_exponent a b) (- 1022) - 52 \<le> 0"
    and "b < 2 * 2 ^ nat (- (max (quotient_exponent a b) (- 1022) - 52))"
proof -
  define e where "e = quotient_exponent a b"
  from quotient_exponent_upper [OF a(2) b(1)] have up: "e \<le> 52" by (simp add: e_def)
  then show "max (quotient_exponent a b) (- 1022) - 52 \<le> 0" by (simp add: e_def)
  have "b < 2 * 2 ^ nat (- (max e (- 1022) - 52))"
  proof (cases "e < - 1022")
    case True
    then have "nat (- (max e (- 1022) - 52)) = 1074" by simp
    moreover have "(2::nat) ^ 1024 < 2 * 2 ^ 1074" by simp
    ultimately show ?thesis using b(2) by (simp only:)
  next
    case False
    define T where "T = nat (52 - e)"
    from False up have T: "nat (- (max e (- 1022) - 52)) = T" by (simp add: T_def max_def)
    have "b < 2 * 2 ^ T"
    proof (cases "0 \<le> e")
      case True
      define E where "E = nat e"
      from True up have ET: "E + T = 52" by (simp add: E_def T_def)
      from quotient_exponent_le [OF a(1) b(1)] True have "b * 2 ^ E \<le> a"
        by (simp add: e_def E_def)
      with a(2) have "b * 2 ^ E < 2 ^ 53" by simp
      also have "(2::nat) ^ 53 = 2 * 2 ^ T * 2 ^ E"
        using ET by (simp add: power_add [symmetric] ac_simps)
      finally show ?thesis by simp
    next
      case False
      define E where "E = nat (- e)"
      from False have ET: "T = 52 + E" by (simp add: E_def T_def)
      from quotient_exponent_le [OF a(1) b(1)] False have "b \<le> a * 2 ^ E"
        by (simp add: e_def E_def)
      also from a(2) have "a * 2 ^ E < 2 ^ 53 * 2 ^ E" by simp
      also have "(2::nat) ^ 53 * 2 ^ E = 2 * 2 ^ T" by (simp add: ET power_add)
      finally show ?thesis .
    qed
    with T show ?thesis by simp
  qed
  then show "b < 2 * 2 ^ nat (- (max (quotient_exponent a b) (- 1022) - 52))"
    by (simp only: e_def)
qed

lemma Math_ceil_div_double:
  assumes c: "c < 2 ^ 53" and n: "n \<noteq> 0" "\<bar>n\<bar> < 2 ^ 1024"
  shows "Math_ceil_div (Num (int c)) (Num n) = Num (- ((- int c) div n))"
proof (cases "c = 0")
  case True
  with n show ?thesis by simp
next
  case False
  define b where "b = nat \<bar>n\<bar>"
  define t where "t = max (quotient_exponent c b) (- 1022) - 52"
  define u where "u = (2::nat) ^ nat (- t)"
  define m where "m = divide_round (c * u) b"
  from False have cpos: "0 < c" by simp
  from n have b: "0 < b" "b < 2 ^ 1024" by (simp_all add: b_def nat_less_iff)
  from quotient_scale [OF cpos c b] have t: "t \<le> 0" and bu: "b < 2 * u"
    by (simp_all add: t_def u_def)
  from t have dq: "double_quotient c b = (m, t)"
    by (simp add: double_quotient_def Let_def t_def [symmetric] m_def u_def)
  have iu: "int u = 2 ^ nat (- t)" by (simp add: u_def)
  have cs: "ceil_scaled m t = - ((- int m) div int u)"
    using t by (cases "t = 0") (simp_all add: ceil_scaled_def iu)
  have fs: "floor_scaled m t = int m div int u"
    using t by (cases "t = 0") (simp_all add: floor_scaled_def iu)
  from divide_round_scaled [OF b(1) bu, of c]
  have fl: "int m div int u = int c div int b"
    and ce: "- ((- int m) div int u) = - ((- int c) div int b)"
    by (simp_all add: m_def)
  have ab: "nat \<bar>int c\<bar> = c" "nat \<bar>n\<bar> = b" by (simp_all add: b_def)
  have sc: "sgn (int c) = 1" using cpos by simp
  have "Math_ceil_div (Num (int c)) (Num n) =
      (if 1 = sgn n then Num (ceil_scaled m t) else Num (- floor_scaled m t))"
    unfolding Math_ceil_div.simps ab dq sc using n(1) False t by simp
  also have "\<dots> = Num (- ((- int c) div n))"
  proof (cases "0 < n")
    case True
    then have "int b = n" by (simp add: b_def)
    with True show ?thesis by (simp add: cs ce)
  next
    case neg: False
    with n have "n < 0" by simp
    then have ib: "int b = - n" by (simp add: b_def)
    have "(- int c) div n = int c div (- n)" by (metis div_minus_right)
    with \<open>n < 0\<close> show ?thesis by (simp add: fs fl ib)
  qed
  finally show ?thesis .
qed

lemma Math_ceil_div_ceiling:
  assumes "c < 2 ^ 53" and "n \<noteq> 0" and "\<bar>n\<bar> < 2 ^ 1024"
  shows "Math_ceil_div (Num (int c)) (Num n) = Num \<lceil>real c / real_of_int n\<rceil>"
proof -
  have "\<lceil>real c / real_of_int n\<rceil> = \<lceil>real_of_int (int c) / real_of_int n\<rceil>" by simp
  also have "\<dots> = - (- int c div n)" by (rule ceiling_divide_eq_div)
  finally show ?thesis using Math_ceil_div_double [OF assms] by (simp only:)
qed

section \<open>The list and its pagination envelope\<close>

lemma getAllDigimons_run:
  "\<exists>f t s. snd (getAllDigimons db args) = [SelectRange f t s]
     \<and> (\<forall>res. fst (getAllDigimons db args) = Inr res \<longrightarrow>
           error (select_range db f t s) = None
           \<and> page (list_pagination res) = (case page_arg args of None \<Rightarrow> Num 1 | Some p \<Rightarrow> p)
           \<and> limit (list_pagination res) = (case limit_arg args of None \<Rightarrow> Num 50 | Some l \<Rightarrow> l)
           \<and> total_rows (list_pagination res) = count (select_range db f t s)
           \<and> totalPages (list_pagination res) =
               Math_ceil_div (count_number (count (select_range db f t s)))
                 (limit (list_pagination res)))"
  by (auto simp: getAllDigimons_def Let_def split: option.splits)









section \<open>The search route\<close>

lemma searchDigimons_issued:
  "snd (searchDigimons db args) =
     [SelectIlike (lit ''%'' @ searchTerm args @ lit ''%'')
        (case search_limit args of None \<Rightarrow> Num 10 | Some l \<Rightarrow> l)]"
  by (simp add: searchDigimons_def Let_def split: option.splits)

text \<open>
  C8. When the \<open>q\<close> of a search request is sanitized to the empty string, the route
  answers with status 400 and has issued no query, whatever the client holds: the
  search of the service has not run, since every run of it issues its query.
\<close>

theorem search_handler_empty_term:
  assumes "sanitizeSearchTerm (query req (lit ''q'')) = []"
  shows "search_handler db req =
      (Reply 400 (errorResponse
         (lit ''Termo de busca '' @ [0xE9] @ lit '' obrigat'' @ [0xF3] @ lit ''rio'') None), [])
    \<and> (\<forall>db'. search_handler db' req = search_handler db req)
    \<and> (\<forall>db' args. snd (searchDigimons db' args) \<noteq> [])"
  using assms by (simp add: search_handler_def Let_def searchDigimons_issued)

theorem search_handler_empty_term_witness:
  "sanitizeSearchTerm (query (request_of [(lit ''q'', JStr (lit '' <> ''))] []) (lit ''q'')) = []
   \<and> search_handler sample_db (request_of [(lit ''q'', JStr (lit '' <> ''))] []) =
       (Reply 400 (errorResponse
          (lit ''Termo de busca '' @ [0xE9] @ lit '' obrigat'' @ [0xF3] @ lit ''rio'') None), [])"
proof -
  have e: "sanitizeSearchTerm (query (request_of [(lit ''q'', JStr (lit '' <> ''))] []) (lit ''q'')) = []"
    by (simp add: request_of_def sanitizeSearchTerm_string trim_def trimStart_def trimEnd_def
        isWhiteSpace_def lit_def)
  from search_handler_empty_term [OF e, of sample_db, THEN conjunct1] e
  show ?thesis by (intro conjI)
qed

section \<open>The list route\<close>

lemma handler_of_run:
  "(case run of (Inl e, issued) \<Rightarrow> (Raised e, issued) | (Inr x, issued) \<Rightarrow> (g x, issued)) =
     ((case fst run of Inl e \<Rightarrow> Raised e | Inr x \<Rightarrow> g x), snd run)"
  by (cases run) (simp split: sum.splits)

lemma list_handler_run:
  "list_handler db req =
     ((case fst (getAllDigimons db
              \<lparr>page_arg = Some (page (validatePagination (query req (lit ''page''))
                                     (query req (lit ''limit'')))),
               limit_arg = Some (limit (validatePagination (query req (lit ''page''))
                                     (query req (lit ''limit'')))),
               stage_arg = query req (lit ''stage'')\<rparr>) of
         Inl e \<Rightarrow> Raised e
       | Inr result \<Rightarrow>
           Reply 200 (paginatedResponse (DigimonList (list_data result))
             (list_pagination result))),
      snd (getAllDigimons db
              \<lparr>page_arg = Some (page (validatePagination (query req (lit ''page''))
                                     (query req (lit ''limit'')))),
               limit_arg = Some (limit (validatePagination (query req (lit ''page''))
                                     (query req (lit ''limit'')))),
               stage_arg = query req (lit ''stage'')\<rparr>))"
  unfolding list_handler_def Let_def by (rule handler_of_run)

text \<open>
  The route passes the validated limit on, so it always lies in \<open>[1, 100]\<close>, and for a row
  count below \<open>2 ^ 53\<close> the number of pages is the rounded-up quotient.
\<close>

lemma list_handler_totalPages:
  assumes "fst (list_handler db req) = Reply st (PaginatedEnvelope ok d pg)"
    and "total_rows pg = Some c" and "c < 2 ^ 53"
  shows "\<exists>n. limit pg = Num n \<and> 1 \<le> n \<and> n \<le> 100
           \<and> totalPages pg = Num \<lceil>real c / real_of_int n\<rceil>"
proof -
  let ?v = "validatePagination (query req (lit ''page'')) (query req (lit ''limit''))"
  let ?args = "\<lparr>page_arg = Some (page ?v), limit_arg = Some (limit ?v),
                 stage_arg = query req (lit ''stage'')\<rparr>"
  from assms(1) obtain res where res: "fst (getAllDigimons db ?args) = Inr res"
    and pg: "pg = list_pagination res"
    by (auto simp: list_handler_run paginatedResponse_def split: sum.splits)
  from validatePagination_range(1) [of "query req (lit ''page'')" "query req (lit ''limit'')"]
  obtain n where n: "limit ?v = Num n" "1 \<le> n" "n \<le> 100" by auto
  from getAllDigimons_run [of db ?args] res
  obtain f t s where lim: "limit (list_pagination res) = limit ?v"
    and tot: "total_rows (list_pagination res) = count (select_range db f t s)"
    and tp: "totalPages (list_pagination res) =
      Math_ceil_div (count_number (count (select_range db f t s))) (limit (list_pagination res))"
    by auto
  from tot assms(2) pg have cnt: "count (select_range db f t s) = Some c" by simp
  have "(100 :: int) < 2 ^ 1024" by simp
  with n have "n \<noteq> 0" "\<bar>n\<bar> < 2 ^ 1024" by simp_all
  from Math_ceil_div_ceiling [OF assms(3) this]
  have "Math_ceil_div (Num (int c)) (Num n) = Num \<lceil>real c / real_of_int n\<rceil>" .
  with tp cnt lim n have "totalPages pg = Num \<lceil>real c / real_of_int n\<rceil>"
    by (simp add: pg count_number_def del: Math_ceil_div.simps)
  with n lim pg show ?thesis by auto
qed

end
